theory Spec2Isabelle
  imports Main "HOL-Library.Word"
begin

section \<open>Static memory planning pass: data model\<close>

text \<open>
  The development embeds \<^verbatim>\<open>torch/csrc/jit/passes/memory_planning.cpp\<close>.
  Machine integers keep their width: \<^verbatim>\<open>uint64_t\<close>, \<^verbatim>\<open>size_t\<close> and
  \<^verbatim>\<open>int64_t\<close> are \<open>64 word\<close> (addition and multiplication wrap), the
  \<^verbatim>\<open>int8_t\<close>-based enumerations \<^verbatim>\<open>ScalarType\<close> and \<^verbatim>\<open>DeviceType\<close> are
  \<open>8 word\<close>.
\<close>

type_synonym uint64 = "64 word"
type_synonym int64 = "64 word"
type_synonym int8 = "8 word"

text \<open>
  The part of a \<^verbatim>\<open>c10::TensorType\<close> that the pass reads: the optional element type,
  the optional concrete extents and strides, and the optional element count
  (what \<^verbatim>\<open>numel()\<close> answers).
\<close>

record TensorType =
  scalarType :: "int8 option"
  sizes :: "int64 list option"
  strides :: "int64 list option"
  numel :: "uint64 option"

datatype Type = TensorT TensorType | OtherT string

text \<open>
  A \<^verbatim>\<open>Value\<close> is identified by its \<open>unique\<close> number; \<open>v_node\<close> is the identity of the
  node that produces it (\<^verbatim>\<open>Value::node()\<close>). The pass never changes a value, so
  the record itself stands for the pointer \<^verbatim>\<open>const Value*\<close>.
\<close>

record Value =
  unique :: nat
  v_type :: Type
  v_node :: nat

datatype attr_name =
  attr_total_size | attr_device | attr_size | attr_offset | attr_sizes | attr_stride | attr_dtype

datatype attr_value = AttrI int64 | AttrIs "int64 list"

text \<open>
  A \<^verbatim>\<open>Node\<close> object, identified by \<open>nid\<close>. Attributes are kept in the order in which
  they were set, as \<^verbatim>\<open>Node::setAttr\<close> does (an existing name is overwritten in
  place, a new one is appended).
\<close>

record Node =
  nid :: nat
  kind :: string
  inputs :: "Value list"
  outputs :: "Value list"
  attrs :: "(attr_name \<times> attr_value) list"

text \<open>
  The graph is its top-level block: the nodes in program order, and the counter from
  which fresh objects are numbered.
\<close>

record Graph =
  nodes :: "Node list"
  next_unique :: nat

text \<open>
  Modelled from the spec: \<^verbatim>\<open>Region\<close> and \<^verbatim>\<open>LiveRange\<close> are declared in
  \<^verbatim>\<open>memory_planning.h\<close>, which is not part of the sources at hand. The spec gives
  \<open>Region{offset, size}\<close> as unsigned integers (64-bit byte counts) and
  \<open>LiveRange{start, end}\<close> as positions in the instruction order.
\<close>

record Region =
  offset :: uint64
  size_reg :: uint64

record LiveRange =
  lr_start :: nat
  lr_end :: nat

text \<open>
  Modelled from the spec: the strategy selector \<^verbatim>\<open>Strategy\<close> is declared in the same
  missing header; its four enumerators are the ones \<^verbatim>\<open>planMemory\<close> switches on.
  \<open>Unlisted k\<close> stands for any other value of the underlying integer type, which
  reaches the \<^verbatim>\<open>default\<close> label.
\<close>

datatype Strategy =
  NAIVE | GREEDY_BY_SIZE | LINEAR_SCAN | GREEDY_BY_BREADTH | Unlisted nat

record Argument =
  name :: string

record FunctionSchema =
  arguments :: "Argument list"

record Operator =
  schema :: FunctionSchema

text \<open>
  A \<^verbatim>\<open>std::unordered_map\<close> is an association list with pairwise distinct keys; the
  order of the list is the order in which the container happens to iterate. C++ leaves
  that order open, so nothing below relies on it.
\<close>

type_synonym ('k, 'v) unordered_map = "('k \<times> 'v) list"

definition umap_count :: "('k, 'v) unordered_map \<Rightarrow> 'k \<Rightarrow> nat" where
  "umap_count m k = (case map_of m k of None \<Rightarrow> 0 | Some _ \<Rightarrow> 1)"

text \<open>\<^verbatim>\<open>insert\<close> keeps an entry that is already there.\<close>

definition umap_insert :: "'k \<Rightarrow> 'v \<Rightarrow> ('k, 'v) unordered_map \<Rightarrow> ('k, 'v) unordered_map" where
  "umap_insert k v m = (case map_of m k of None \<Rightarrow> m @ [(k, v)] | Some _ \<Rightarrow> m)"

text \<open>
  What the pass takes from code outside this file: the operator registry, the element
  width table, the alias and liveness analyses, the device choice, the constant
  \<^verbatim>\<open>at::kCPU\<close>, and the three packing strategies.
\<close>

record Env =
  getAllOperatorsFor :: "string \<Rightarrow> Operator list"
  elementSize :: "int8 \<Rightarrow> uint64"
  GetAlwaysAliveValues :: "Graph \<Rightarrow> Value set"
  GetLiveness :: "Graph \<Rightarrow> Value set \<Rightarrow> (Value, LiveRange) unordered_map"
  pickDeviceType :: "Graph \<Rightarrow> int8 option"
  kCPU :: int8
  greedyBySize ::
    "(Value, uint64) unordered_map \<Rightarrow> (Value, LiveRange) unordered_map
      \<Rightarrow> (Value, Region) unordered_map"
  linearScanHeuristic ::
    "(Value, uint64) unordered_map \<Rightarrow> (Value, LiveRange) unordered_map
      \<Rightarrow> (Value, Region) unordered_map"
  greedyByOperatorBreadth ::
    "(Value, uint64) unordered_map \<Rightarrow> (Value, LiveRange) unordered_map \<Rightarrow> Node list
      \<Rightarrow> (Value, Region) unordered_map"

datatype error =
  CheckFailed          \<comment> \<open>the \<^verbatim>\<open>TORCH_CHECK\<close> of \<^verbatim>\<open>insertAllocTensorNodes\<close>\<close>
  | ExpectFailed       \<comment> \<open>\<^verbatim>\<open>expect<TensorType>()\<close> on another type\<close>
  | BadOptionalAccess  \<comment> \<open>\<^verbatim>\<open>value()\<close> of an empty optional\<close>
  | AssertFailed       \<comment> \<open>an internal assertion of the IR (\<^verbatim>\<open>output()\<close>, \<^verbatim>\<open>i()\<close>, \<^verbatim>\<open>insertBefore\<close>)\<close>

section \<open>Sizes of values\<close>

text \<open>
  \<^verbatim>\<open>computeStorageSize\<close>: each early \<^verbatim>\<open>return c10::nullopt\<close> is a \<open>None\<close> branch, in the
  order of the source (the warnings are diagnostics only). The product wraps as
  \<^verbatim>\<open>size_t\<close> does.
\<close>

definition computeStorageSize :: "Env \<Rightarrow> Value \<Rightarrow> uint64 option" where
  "computeStorageSize env v =
     (case v_type v of
        OtherT _ \<Rightarrow> None
      | TensorT ttp \<Rightarrow>
          (if scalarType ttp = None then None
           else if sizes ttp = None then None
           else (case scalarType ttp of
                   None \<Rightarrow> None
                 | Some scalar_type \<Rightarrow>
                     (let element_size = elementSize env scalar_type in
                      case numel ttp of
                        None \<Rightarrow> None
                      | Some n \<Rightarrow> Some (n * element_size)))))"

text \<open>
  Modelled from the spec: \<^verbatim>\<open>at::detail::defaultStrides\<close> is not part of the sources at
  hand; the spec calls its result the row-major default. The stride of the last axis
  is 1 and each earlier stride is the next one times the next extent.
\<close>

fun defaultStrides :: "int64 list \<Rightarrow> int64 list" where
  "defaultStrides [] = []"
| "defaultStrides (s # ss) = prod_list ss # defaultStrides ss"

definition getSizesStrides :: "TensorType \<Rightarrow> int64 list \<times> int64 list" where
  "getSizesStrides ttp =
     (let szs = (case sizes ttp of
                   Some (s # ss) \<Rightarrow> (if s \<noteq> 0 then s # ss else [0])
                 | _ \<Rightarrow> [0]);
          strs = (case strides ttp of
                   Some (s # ss) \<Rightarrow> (if s \<noteq> 0 then s # ss else defaultStrides szs)
                 | _ \<Rightarrow> defaultStrides szs)
      in (szs, strs))"

section \<open>Collecting the managed values\<close>

text \<open>
  \<^verbatim>\<open>hasOutVariant\<close>: the outer loop over the overloads registered for the node's kind,
  with \<^verbatim>\<open>std::find_if\<close> over the arguments of each.
\<close>

fun hasOutVariant_loop :: "Operator list \<Rightarrow> bool" where
  "hasOutVariant_loop [] = False"
| "hasOutVariant_loop (variant # rest) =
     (case find (\<lambda>arg. name arg = ''out'') (arguments (schema variant)) of
        Some _ \<Rightarrow> True
      | None \<Rightarrow> hasOutVariant_loop rest)"

definition hasOutVariant :: "Env \<Rightarrow> Node \<Rightarrow> bool" where
  "hasOutVariant env node = hasOutVariant_loop (getAllOperatorsFor env (kind node))"

text \<open>
  The inner loop of \<^verbatim>\<open>getManagedValues\<close> over the outputs of one node. The state is
  the pair of \<^verbatim>\<open>managed_tensor_values\<close> and \<^verbatim>\<open>leaked_values\<close>. Both \<^verbatim>\<open>else\<close> branches
  of the source insert into \<^verbatim>\<open>leaked_values\<close>; they differ only in the warning.
\<close>

fun getManagedValues_outputs ::
  "Env \<Rightarrow> Value set \<Rightarrow> Value list \<Rightarrow> (Value, uint64) unordered_map \<times> Value set
    \<Rightarrow> (Value, uint64) unordered_map \<times> Value set" where
  "getManagedValues_outputs env always_alive_values [] st = st"
| "getManagedValues_outputs env always_alive_values (out_v # vs) (managed, leaked) =
     (if out_v \<in> always_alive_values
      then getManagedValues_outputs env always_alive_values vs (managed, leaked)
      else (case computeStorageSize env out_v of
              Some sz \<Rightarrow>
                (if sz > 0
                 then getManagedValues_outputs env always_alive_values vs
                        (umap_insert out_v sz managed, leaked)
                 else getManagedValues_outputs env always_alive_values vs
                        (managed, insert out_v leaked))
            | None \<Rightarrow>
                getManagedValues_outputs env always_alive_values vs
                  (managed, insert out_v leaked)))"

text \<open>The outer loop over the nodes of the graph; the state adds \<^verbatim>\<open>out_nodes\<close>.\<close>

fun getManagedValues_nodes ::
  "Env \<Rightarrow> Value set \<Rightarrow> Node list
    \<Rightarrow> Node list \<times> (Value, uint64) unordered_map \<times> Value set
    \<Rightarrow> Node list \<times> (Value, uint64) unordered_map \<times> Value set" where
  "getManagedValues_nodes env always_alive_values [] st = st"
| "getManagedValues_nodes env always_alive_values (node # ns) (out_nodes, st) =
     (if \<not> hasOutVariant env node
      then getManagedValues_nodes env always_alive_values ns (out_nodes, st)
      else getManagedValues_nodes env always_alive_values ns
             (out_nodes @ [node],
              getManagedValues_outputs env always_alive_values (outputs node) st))"

text \<open>The three local containers when the loops are done.\<close>

definition getManagedValues_state ::
  "Env \<Rightarrow> Graph \<Rightarrow> Value set \<Rightarrow> Node list \<times> (Value, uint64) unordered_map \<times> Value set" where
  "getManagedValues_state env graph always_alive_values =
     getManagedValues_nodes env always_alive_values (nodes graph) ([], [], {})"

definition getManagedValues ::
  "Env \<Rightarrow> Graph \<Rightarrow> Value set \<Rightarrow> Node list \<times> (Value, uint64) unordered_map" where
  "getManagedValues env graph always_alive_values =
     (case getManagedValues_state env graph always_alive_values of
        (out_nodes, managed_tensor_values, leaked_values) \<Rightarrow>
          (out_nodes, managed_tensor_values))"

text \<open>The values that the collector leaves to their own allocation.\<close>

definition leaked_values :: "Env \<Rightarrow> Graph \<Rightarrow> Value set \<Rightarrow> Value set" where
  "leaked_values env graph always_alive_values =
     snd (snd (getManagedValues_state env graph always_alive_values))"

definition getManagedStuff ::
  "Env \<Rightarrow> Graph
    \<Rightarrow> Node list \<times> (Value, uint64) unordered_map \<times> (Value, LiveRange) unordered_map" where
  "getManagedStuff env graph =
     (let always_alive = GetAlwaysAliveValues env graph;
          live_ranges = GetLiveness env graph always_alive;
          (out_nodes, managed_tensor_values) = getManagedValues env graph always_alive;
          managed_ranges =
            fold (\<lambda>lvr acc.
                    if umap_count managed_tensor_values (fst lvr) > 0
                    then umap_insert (fst lvr) (snd lvr) acc else acc)
                 live_ranges []
      in (out_nodes, managed_tensor_values, managed_ranges))"

section \<open>The size of the arena\<close>

definition getTotalAllocationSize :: "(Value, Region) unordered_map \<Rightarrow> uint64" where
  "getTotalAllocationSize allocations =
     fold (\<lambda>item total_size. max total_size (offset (snd item) + size_reg (snd item)))
          allocations 0"

section \<open>Rewriting the graph\<close>

definition prim_AllocateStorage :: string where
  "prim_AllocateStorage = ''prim::AllocateStorage''"

definition prim_AllocateTensor :: string where
  "prim_AllocateTensor = ''prim::AllocateTensor''"

text \<open>The type of a freshly created output: a tensor about which nothing is known.\<close>

definition unshaped_tensor :: Type where
  "unshaped_tensor = TensorT \<lparr>scalarType = None, sizes = None, strides = None, numel = None\<rparr>"

text \<open>
  \<^verbatim>\<open>graph->create(kind, 1)\<close>: a new node with one output, not yet in the node list.
\<close>

definition create :: "Graph \<Rightarrow> string \<Rightarrow> Node \<times> Graph" where
  "create graph k =
     (\<lparr>nid = next_unique graph, kind = k, inputs = [],
       outputs = [\<lparr>unique = next_unique graph, v_type = unshaped_tensor,
                   v_node = next_unique graph\<rparr>],
       attrs = []\<rparr>,
      graph\<lparr>next_unique := Suc (next_unique graph)\<rparr>)"

text \<open>\<^verbatim>\<open>Node::output()\<close> asserts that the node has exactly one output.\<close>

definition output_of :: "Node \<Rightarrow> error + Value" where
  "output_of n = (case outputs n of [v] \<Rightarrow> Inr v | _ \<Rightarrow> Inl AssertFailed)"

definition addInput :: "Value \<Rightarrow> Node \<Rightarrow> Node" where
  "addInput v n = n\<lparr>inputs := inputs n @ [v]\<rparr>"

fun setAttr ::
  "attr_name \<Rightarrow> attr_value \<Rightarrow> (attr_name \<times> attr_value) list \<Rightarrow> (attr_name \<times> attr_value) list" where
  "setAttr a x [] = [(a, x)]"
| "setAttr a x (p # ps) = (if fst p = a then (a, x) # ps else p # setAttr a x ps)"

definition i_set :: "attr_name \<Rightarrow> int64 \<Rightarrow> Node \<Rightarrow> Node" where
  "i_set a x n = n\<lparr>attrs := setAttr a (AttrI x) (attrs n)\<rparr>"

definition is_set :: "attr_name \<Rightarrow> int64 list \<Rightarrow> Node \<Rightarrow> Node" where
  "is_set a xs n = n\<lparr>attrs := setAttr a (AttrIs xs) (attrs n)\<rparr>"

text \<open>\<^verbatim>\<open>Node::i(name)\<close> asserts that the attribute exists and is an integer.\<close>

definition i_get :: "Node \<Rightarrow> attr_name \<Rightarrow> error + int64" where
  "i_get n a = (case map_of (attrs n) a of Some (AttrI x) \<Rightarrow> Inr x | _ \<Rightarrow> Inl AssertFailed)"

text \<open>
  A node object that sits in the list is changed in place: every later reader of the
  list sees the change.
\<close>

definition update_node :: "nat \<Rightarrow> (Node \<Rightarrow> Node) \<Rightarrow> Graph \<Rightarrow> Graph" where
  "update_node i f graph =
     graph\<lparr>nodes := map (\<lambda>n. if nid n = i then f n else n) (nodes graph)\<rparr>"

text \<open>
  \<^verbatim>\<open>a->insertBefore(n)\<close> asserts that \<open>n\<close> is in the node list and puts \<open>a\<close> right in
  front of it.
\<close>

fun insertBefore_list :: "Node \<Rightarrow> nat \<Rightarrow> Node list \<Rightarrow> Node list option" where
  "insertBefore_list a i [] = None"
| "insertBefore_list a i (n # ns) =
     (if nid n = i then Some (a # n # ns)
      else map_option ((#) n) (insertBefore_list a i ns))"

definition insertBefore :: "Node \<Rightarrow> nat \<Rightarrow> Graph \<Rightarrow> Graph option" where
  "insertBefore a i graph =
     map_option (\<lambda>ns. graph\<lparr>nodes := ns\<rparr>) (insertBefore_list a i (nodes graph))"

text \<open>
  \<^verbatim>\<open>insertAllocStorageNode\<close>. The attributes are set on the new object before it enters
  the list. \<^verbatim>\<open>graph->nodes().front()\<close> of an empty block is the block's return node, so
  the new node becomes the first node in either case.
\<close>

definition insertAllocStorageNode :: "Env \<Rightarrow> Graph \<Rightarrow> uint64 \<Rightarrow> Node \<times> Graph" where
  "insertAllocStorageNode env graph total_size =
     (let (storage, g1) = create graph prim_AllocateStorage;
          storage1 = i_set attr_total_size total_size storage;
          storage2 = (case pickDeviceType env g1 of
                        Some deviceType \<Rightarrow> i_set attr_device (scast deviceType) storage1
                      | None \<Rightarrow> i_set attr_device (scast (kCPU env)) storage1)
      in (storage2, g1\<lparr>nodes := storage2 # nodes g1\<rparr>))"

text \<open>
  The body of the loop of \<^verbatim>\<open>insertAllocTensorNodes\<close> for one entry of the plan. The
  result is the graph as it stands when the body ends, and the exception if it ended
  by one: the graph is shared and mutated in place, so what was done before a throw
  stays done. The steps are in the order of the source; the debug output between them
  does not touch the graph and is left out.
\<close>

definition insertAllocTensorNodes_body ::
  "Node \<Rightarrow> uint64 \<Rightarrow> Graph \<Rightarrow> Value \<times> Region \<Rightarrow> Graph \<times> error option" where
  "insertAllocTensorNodes_body storage total_size graph allocation =
     (let node = v_node (fst allocation);
          region = snd allocation;
          (alloc, g1) = create graph prim_AllocateTensor
      in (case output_of alloc of
            Inl e \<Rightarrow> (g1, Some e)
          | Inr alloc_out \<Rightarrow>
     (let g2 = update_node node (addInput alloc_out) g1
      in (case insertBefore alloc node g2 of
            None \<Rightarrow> (g2, Some AssertFailed)
          | Some g3 \<Rightarrow>
         (case output_of storage of
            Inl e \<Rightarrow> (g3, Some e)
          | Inr storage_out \<Rightarrow>
     (let g4 = update_node (nid alloc) (addInput storage_out) g3
      in (case v_type (fst allocation) of
            OtherT _ \<Rightarrow> (g4, Some ExpectFailed)
          | TensorT ttp \<Rightarrow>
     (let (szs, strs) = getSizesStrides ttp
      in (if \<not> (offset region + size_reg region \<le> total_size)
          then (g4, Some CheckFailed)
          else
     (let g5 = update_node (nid alloc) (i_set attr_size (size_reg region)) g4;
          g6 = update_node (nid alloc) (i_set attr_offset (offset region)) g5;
          g7 = update_node (nid alloc) (is_set attr_sizes szs) g6;
          g8 = update_node (nid alloc) (is_set attr_stride strs) g7
      in (case i_get storage attr_device of
            Inl e \<Rightarrow> (g8, Some e)
          | Inr d \<Rightarrow>
     (let g9 = update_node (nid alloc) (i_set attr_device (scast (ucast d :: int8))) g8
      in (case scalarType ttp of
            None \<Rightarrow> (g9, Some BadOptionalAccess)
          | Some st \<Rightarrow>
              (update_node (nid alloc) (i_set attr_dtype (scast st)) g9, None))))))))))))))"

fun insertAllocTensorNodes_loop ::
  "Node \<Rightarrow> uint64 \<Rightarrow> Graph \<Rightarrow> (Value, Region) unordered_map \<Rightarrow> Graph \<times> error option" where
  "insertAllocTensorNodes_loop storage total_size graph [] = (graph, None)"
| "insertAllocTensorNodes_loop storage total_size graph (allocation # rest) =
     (case insertAllocTensorNodes_body storage total_size graph allocation of
        (g', Some e) \<Rightarrow> (g', Some e)
      | (g', None) \<Rightarrow> insertAllocTensorNodes_loop storage total_size g' rest)"

definition insertAllocTensorNodes ::
  "Graph \<Rightarrow> Node \<Rightarrow> (Value, Region) unordered_map \<Rightarrow> Graph \<times> error option" where
  "insertAllocTensorNodes graph storage allocations =
     (case i_get storage attr_total_size of
        Inl e \<Rightarrow> (graph, Some e)
      | Inr total_size \<Rightarrow> insertAllocTensorNodes_loop storage total_size graph allocations)"

section \<open>The pass\<close>

text \<open>
  The \<^verbatim>\<open>switch\<close> of \<^verbatim>\<open>planMemory\<close>: \<open>None\<close> where the source returns at once, otherwise
  the plan of the chosen strategy.
\<close>

definition planMemory_allocations ::
  "Env \<Rightarrow> Graph \<Rightarrow> Strategy \<Rightarrow> (Value, Region) unordered_map option" where
  "planMemory_allocations env graph strat =
     (case getManagedStuff env graph of
        (out_nodes, managed_values, managed_ranges) \<Rightarrow>
          (case strat of
             NAIVE \<Rightarrow> None
           | GREEDY_BY_SIZE \<Rightarrow> Some (greedyBySize env managed_values managed_ranges)
           | LINEAR_SCAN \<Rightarrow> Some (linearScanHeuristic env managed_values managed_ranges)
           | GREEDY_BY_BREADTH \<Rightarrow>
               Some (greedyByOperatorBreadth env managed_values managed_ranges out_nodes)
           | Unlisted _ \<Rightarrow> None))"

text \<open>
  \<^verbatim>\<open>planMemory\<close> (the printing of the plan and the debug dumps leave the graph alone and
  are left out).
\<close>

definition planMemory :: "Env \<Rightarrow> Graph \<Rightarrow> Strategy \<Rightarrow> Graph \<times> error option" where
  "planMemory env graph strat =
     (case planMemory_allocations env graph strat of
        None \<Rightarrow> (graph, None)
      | Some allocations \<Rightarrow>
          (let total_size = getTotalAllocationSize allocations;
               (storage_node, g1) = insertAllocStorageNode env graph total_size
           in insertAllocTensorNodes g1 storage_node allocations))"

section \<open>The binding that a plan entry asks for\<close>

text \<open>
  The finished \<^verbatim>\<open>prim::AllocateTensor\<close> node for a value of tensor type \<open>ttp\<close> with element
  type \<open>st\<close> and region \<open>region\<close>, created as object number \<open>k\<close>: its only input is
  the output of the arena node, and its attributes are the six that the loop body
  sets, in the order in which it sets them. \<open>d\<close> is the device attribute of the arena
  node. This is what the statements about the loop compare the graph with.
\<close>

definition fresh_output :: "nat \<Rightarrow> Value" where
  "fresh_output k = \<lparr>unique = k, v_type = unshaped_tensor, v_node = k\<rparr>"

definition binding_directive ::
  "nat \<Rightarrow> Value \<Rightarrow> int64 \<Rightarrow> Region \<Rightarrow> TensorType \<Rightarrow> int8 \<Rightarrow> Node" where
  "binding_directive k storage_out d region ttp st =
     \<lparr>nid = k, kind = prim_AllocateTensor, inputs = [storage_out],
      outputs = [fresh_output k],
      attrs = [(attr_size, AttrI (size_reg region)),
               (attr_offset, AttrI (offset region)),
               (attr_sizes, AttrIs (fst (getSizesStrides ttp))),
               (attr_stride, AttrIs (snd (getSizesStrides ttp))),
               (attr_device, AttrI (scast (ucast d :: int8))),
               (attr_dtype, AttrI (scast st))]\<rparr>"

section \<open>A small program, for concrete runs\<close>

text \<open>
  Four nodes: an addition, a two-output minimum whose second output has no element
  count, a list construction (no overload with an \<open>out\<close> argument), and a final
  addition whose result the liveness analysis pins as always alive.
\<close>

definition ex_float23 :: TensorType where
  "ex_float23 = \<lparr>scalarType = Some 6, sizes = Some [2, 3], strides = Some [3, 1], numel = Some 6\<rparr>"

definition ex_v1 :: Value where
  "ex_v1 = \<lparr>unique = 1, v_type = TensorT ex_float23, v_node = 0\<rparr>"

definition ex_v2 :: Value where
  "ex_v2 = \<lparr>unique = 2, v_type = TensorT ex_float23, v_node = 1\<rparr>"

definition ex_v3 :: Value where
  "ex_v3 = \<lparr>unique = 3,
            v_type = TensorT \<lparr>scalarType = Some 4, sizes = Some [2], strides = None, numel = None\<rparr>,
            v_node = 1\<rparr>"

definition ex_v4 :: Value where
  "ex_v4 = \<lparr>unique = 4, v_type = OtherT ''Tensor[]'', v_node = 2\<rparr>"

definition ex_v5 :: Value where
  "ex_v5 = \<lparr>unique = 5, v_type = TensorT ex_float23, v_node = 3\<rparr>"

definition ex_n0 :: Node where
  "ex_n0 = \<lparr>nid = 0, kind = ''aten::add'', inputs = [], outputs = [ex_v1], attrs = []\<rparr>"

definition ex_n1 :: Node where
  "ex_n1 = \<lparr>nid = 1, kind = ''aten::min'', inputs = [ex_v1], outputs = [ex_v2, ex_v3], attrs = []\<rparr>"

definition ex_n2 :: Node where
  "ex_n2 = \<lparr>nid = 2, kind = ''prim::ListConstruct'', inputs = [ex_v1, ex_v2],
            outputs = [ex_v4], attrs = []\<rparr>"

definition ex_n3 :: Node where
  "ex_n3 = \<lparr>nid = 3, kind = ''aten::add'', inputs = [ex_v2], outputs = [ex_v5], attrs = []\<rparr>"

definition ex_graph :: Graph where
  "ex_graph = \<lparr>nodes = [ex_n0, ex_n1, ex_n2, ex_n3], next_unique = 6\<rparr>"

definition ex_out_op :: Operator where
  "ex_out_op = \<lparr>schema = \<lparr>arguments = [\<lparr>name = ''self''\<rparr>, \<lparr>name = ''out''\<rparr>]\<rparr>\<rparr>"

text \<open>A packing without reuse, to stand for the strategies in concrete runs.\<close>

fun ex_pack :: "uint64 \<Rightarrow> (Value, uint64) unordered_map \<Rightarrow> (Value, Region) unordered_map" where
  "ex_pack off [] = []"
| "ex_pack off ((v, s) # ms) = (v, \<lparr>offset = off, size_reg = s\<rparr>) # ex_pack (off + s) ms"

definition ex_env :: Env where
  "ex_env = \<lparr>
     getAllOperatorsFor = (\<lambda>k. if k = ''aten::add'' \<or> k = ''aten::min'' then [ex_out_op] else []),
     elementSize = (\<lambda>st. if st = 6 then 4 else 8),
     GetAlwaysAliveValues = (\<lambda>g. {ex_v5}),
     GetLiveness = (\<lambda>g aa. [(ex_v1, \<lparr>lr_start = 0, lr_end = 2\<rparr>),
                               (ex_v2, \<lparr>lr_start = 1, lr_end = 3\<rparr>),
                               (ex_v3, \<lparr>lr_start = 1, lr_end = 1\<rparr>)]),
     pickDeviceType = (\<lambda>g. None),
     kCPU = 0,
     greedyBySize = (\<lambda>m r. ex_pack 0 m),
     linearScanHeuristic = (\<lambda>m r. ex_pack 0 m),
     greedyByOperatorBreadth = (\<lambda>m r ns. ex_pack 0 m)\<rparr>"

text \<open>
  The program after the arena node for 48 bytes has been inserted, and a plan that was
  corrupted on purpose: its second region ends at byte 64.
\<close>

definition ex_storage :: Node where
  "ex_storage = fst (insertAllocStorageNode ex_env ex_graph 48)"

definition ex_graph1 :: Graph where
  "ex_graph1 = snd (insertAllocStorageNode ex_env ex_graph 48)"

definition ex_corrupt_plan :: "(Value, Region) unordered_map" where
  "ex_corrupt_plan = [(ex_v1, \<lparr>offset = 0, size_reg = 24\<rparr>), (ex_v2, \<lparr>offset = 40, size_reg = 24\<rparr>)]"

text \<open>A program of one node with two tensor outputs, and a plan for both of them.\<close>

definition ex_a :: Value where
  "ex_a = \<lparr>unique = 1, v_type = TensorT ex_float23, v_node = 0\<rparr>"

definition ex_b :: Value where
  "ex_b = \<lparr>unique = 2, v_type = TensorT ex_float23, v_node = 0\<rparr>"

definition ex_two :: Graph where
  "ex_two = \<lparr>nodes = [\<lparr>nid = 0, kind = ''aten::min'', inputs = [], outputs = [ex_a, ex_b],
                         attrs = []\<rparr>],
             next_unique = 3\<rparr>"

definition ex_two_plan :: "(Value, Region) unordered_map" where
  "ex_two_plan = [(ex_a, \<lparr>offset = 0, size_reg = 24\<rparr>), (ex_b, \<lparr>offset = 24, size_reg = 24\<rparr>)]"

definition ex_two_storage :: Node where
  "ex_two_storage = fst (insertAllocStorageNode ex_env ex_two 48)"

definition ex_two1 :: Graph where
  "ex_two1 = snd (insertAllocStorageNode ex_env ex_two 48)"

text \<open>A plan of one region whose end, \<open>2 ^ 64 + 8\<close>, does not fit in 64 bits.\<close>

definition ex_wrap_region :: Region where
  "ex_wrap_region = \<lparr>offset = 18446744073709551608, size_reg = 16\<rparr>"

definition ex_wrap_plan :: "(Value, Region) unordered_map" where
  "ex_wrap_plan = [(ex_v1, ex_wrap_region)]"

text \<open>The plan that the packing without reuse gives for the small program.\<close>

definition ex_plan :: "(Value, Region) unordered_map" where
  "ex_plan = [(ex_v1, \<lparr>offset = 0, size_reg = 24\<rparr>), (ex_v2, \<lparr>offset = 24, size_reg = 24\<rparr>)]"

section \<open>Facts about the collector\<close>

lemma fold_max_Max:
  fixes a :: "'a::linorder"
  shows "fold (\<lambda>x t. max t (f x)) xs a = Max (insert a (f ` set xs))"
proof (induction xs arbitrary: a)
  case Nil
  then show ?case by simp
next
  case (Cons x xs)
  have "Max (insert (max a (f x)) (f ` set xs)) = Max (insert a (insert (f x) (f ` set xs)))"
    by (cases "f ` set xs = {}") (simp_all add: max.assoc)
  with Cons show ?case by simp
qed

lemma hasOutVariant_loop_iff:
  "hasOutVariant_loop ops \<longleftrightarrow>
     (\<exists>variant \<in> set ops. \<exists>arg \<in> set (arguments (schema variant)). name arg = ''out'')"
proof (induction ops)
  case Nil
  then show ?case by simp
next
  case (Cons variant rest)
  show ?case
  proof (cases "find (\<lambda>arg. name arg = ''out'') (arguments (schema variant))")
    case None
    then have "\<not> (\<exists>arg \<in> set (arguments (schema variant)). name arg = ''out'')"
      by (simp add: find_None_iff)
    with None Cons show ?thesis by simp
  next
    case (Some a)
    then have "find (\<lambda>arg. name arg = ''out'') (arguments (schema variant)) \<noteq> None" by simp
    then have "\<exists>arg \<in> set (arguments (schema variant)). name arg = ''out''"
      by (auto simp: find_None_iff)
    with Some show ?thesis by simp
  qed
qed

lemma umap_insert_set:
  "set (umap_insert k v m) = (if k \<in> fst ` set m then set m else insert (k, v) (set m))"
proof (cases "map_of m k")
  case None
  then have "k \<notin> fst ` set m" by (simp add: map_of_eq_None_iff)
  with None show ?thesis by (simp add: umap_insert_def)
next
  case (Some x)
  then have "k \<in> fst ` set m" by (metis map_of_eq_None_iff option.distinct(1))
  with Some show ?thesis by (simp add: umap_insert_def)
qed

lemma outputs_loop_managed:
  "set (fst (getManagedValues_outputs env aa vs (m, l))) =
     set m \<union> {(v, s). v \<in> set vs \<and> v \<notin> aa \<and> computeStorageSize env v = Some s \<and> 0 < s
                  \<and> v \<notin> fst ` set m}"
proof (induction vs arbitrary: m l)
  case Nil
  then show ?case by simp
next
  case (Cons out_v vs)
  show ?case
  proof (cases "out_v \<in> aa")
    case True
    then show ?thesis using Cons.IH[of m l] by auto
  next
    case False
    show ?thesis
    proof (cases "computeStorageSize env out_v")
      case None
      then show ?thesis using False Cons.IH[of m "insert out_v l"] by auto
    next
      case (Some sz)
      show ?thesis
      proof (cases "0 < sz")
        case True
        then show ?thesis using False Some Cons.IH[of "umap_insert out_v sz m" l]
          by (auto simp: umap_insert_set split: if_splits)
      next
        case False': False
        then show ?thesis using False Some Cons.IH[of m "insert out_v l"] by auto
      qed
    qed
  qed
qed


lemma outputs_loop_keys:
  "fst ` set (fst (getManagedValues_outputs env aa vs (m, l))) =
     fst ` set m \<union> {v \<in> set vs. v \<notin> aa \<and> (\<exists>s. computeStorageSize env v = Some s \<and> 0 < s)}"
  (is "fst ` ?R = ?A \<union> ?B")
proof -
  have R: "?R = set m \<union> {(v, s). v \<in> set vs \<and> v \<notin> aa \<and> computeStorageSize env v = Some s \<and> 0 < s
                  \<and> v \<notin> fst ` set m}" (is "_ = _ \<union> ?C")
    by (rule outputs_loop_managed)
  have "fst ` ?C = ?B - ?A" by force
  then show ?thesis unfolding R image_Un by blast
qed

lemma outputs_loop_entries:
  "(v, s) \<in> set (fst (getManagedValues_outputs env aa vs (m, l))) \<Longrightarrow>
     (v, s) \<in> set m \<or> (computeStorageSize env v = Some s \<and> 0 < s)"
  unfolding outputs_loop_managed by blast

lemma outputs_loop_leaked:
  "snd (getManagedValues_outputs env aa vs (m, l)) =
     l \<union> {v \<in> set vs. v \<notin> aa \<and> \<not> (\<exists>s. computeStorageSize env v = Some s \<and> 0 < s)}"
proof (induction vs arbitrary: m l)
  case Nil
  then show ?case by simp
next
  case (Cons out_v vs)
  show ?case
  proof (cases "out_v \<in> aa")
    case True
    then show ?thesis using Cons.IH[of m l] by auto
  next
    case False
    show ?thesis
    proof (cases "computeStorageSize env out_v")
      case None
      then show ?thesis using False Cons.IH[of m "insert out_v l"] by auto
    next
      case (Some sz)
      show ?thesis
      proof (cases "0 < sz")
        case True
        then show ?thesis using False Some Cons.IH[of "umap_insert out_v sz m" l] by auto
      next
        case False': False
        then show ?thesis using False Some Cons.IH[of m "insert out_v l"] by auto
      qed
    qed
  qed
qed

lemma nodes_loop_out_nodes:
  "fst (getManagedValues_nodes env aa ns (out_nodes, st)) = out_nodes @ filter (hasOutVariant env) ns"
  by (induction ns arbitrary: out_nodes st) auto

lemma nodes_loop_filter:
  "getManagedValues_nodes env aa (filter (hasOutVariant env) ns) (out_nodes, st) =
   getManagedValues_nodes env aa ns (out_nodes, st)"
  by (induction ns arbitrary: out_nodes st) auto

lemma nodes_loop_keys:
  "fst ` set (fst (snd (getManagedValues_nodes env aa ns (out_nodes, m, l)))) =
     fst ` set m \<union>
     {v. \<exists>n \<in> set ns. hasOutVariant env n \<and> v \<in> set (outputs n) \<and> v \<notin> aa \<and>
           (\<exists>s. computeStorageSize env v = Some s \<and> 0 < s)}"
proof (induction ns arbitrary: out_nodes m l)
  case Nil
  then show ?case by simp
next
  case (Cons node ns)
  show ?case
  proof (cases "hasOutVariant env node")
    case False
    then show ?thesis using Cons.IH[of out_nodes m l] by auto
  next
    case True
    obtain m' l' where st: "getManagedValues_outputs env aa (outputs node) (m, l) = (m', l')"
      by (cases "getManagedValues_outputs env aa (outputs node) (m, l)")
    have k: "fst ` set m' = fst ` set m \<union>
        {v \<in> set (outputs node). v \<notin> aa \<and> (\<exists>s. computeStorageSize env v = Some s \<and> 0 < s)}"
      using outputs_loop_keys[of env aa "outputs node" m l] st by simp
    show ?thesis using True st Cons.IH[of "out_nodes @ [node]" m' l'] unfolding k by auto
  qed
qed

lemma nodes_loop_entries:
  "(v, s) \<in> set (fst (snd (getManagedValues_nodes env aa ns (out_nodes, m, l)))) \<Longrightarrow>
     (v, s) \<in> set m \<or> (computeStorageSize env v = Some s \<and> 0 < s)"
proof (induction ns arbitrary: out_nodes m l)
  case Nil
  then show ?case by simp
next
  case (Cons node ns)
  show ?case
  proof (cases "hasOutVariant env node")
    case False
    then show ?thesis using Cons.IH[of out_nodes m l] Cons.prems by auto
  next
    case True
    obtain m' l' where st: "getManagedValues_outputs env aa (outputs node) (m, l) = (m', l')"
      by (cases "getManagedValues_outputs env aa (outputs node) (m, l)")
    from True st Cons.prems have "(v, s) \<in> set m' \<or> (computeStorageSize env v = Some s \<and> 0 < s)"
      using Cons.IH[of "out_nodes @ [node]" m' l'] by simp
    moreover have "(v, s) \<in> set m' \<Longrightarrow> (v, s) \<in> set m \<or> (computeStorageSize env v = Some s \<and> 0 < s)"
      using outputs_loop_entries[of v s env aa "outputs node" m l] st by simp
    ultimately show ?thesis by blast
  qed
qed

lemma nodes_loop_leaked:
  "snd (snd (getManagedValues_nodes env aa ns (out_nodes, m, l))) =
     l \<union>
     {v. \<exists>n \<in> set ns. hasOutVariant env n \<and> v \<in> set (outputs n) \<and> v \<notin> aa \<and>
           \<not> (\<exists>s. computeStorageSize env v = Some s \<and> 0 < s)}"
proof (induction ns arbitrary: out_nodes m l)
  case Nil
  then show ?case by simp
next
  case (Cons node ns)
  show ?case
  proof (cases "hasOutVariant env node")
    case False
    then show ?thesis using Cons.IH[of out_nodes m l] by auto
  next
    case True
    obtain m' l' where st: "getManagedValues_outputs env aa (outputs node) (m, l) = (m', l')"
      by (cases "getManagedValues_outputs env aa (outputs node) (m, l)")
    have k: "l' = l \<union>
        {v \<in> set (outputs node). v \<notin> aa \<and> \<not> (\<exists>s. computeStorageSize env v = Some s \<and> 0 < s)}"
      using outputs_loop_leaked[of env aa "outputs node" m l] st by simp
    show ?thesis using True st Cons.IH[of "out_nodes @ [node]" m' l'] unfolding k by auto
  qed
qed

section \<open>The small program, evaluated\<close>

lemma ex_kinds:
  "kind ex_n0 = ''aten::add''" "kind ex_n1 = ''aten::min''"
  "kind ex_n2 = ''prim::ListConstruct''" "kind ex_n3 = ''aten::add''"
  by (simp_all add: ex_n0_def ex_n1_def ex_n2_def ex_n3_def)

lemma ex_outputs:
  "outputs ex_n0 = [ex_v1]" "outputs ex_n1 = [ex_v2, ex_v3]"
  "outputs ex_n2 = [ex_v4]" "outputs ex_n3 = [ex_v5]"
  by (simp_all add: ex_n0_def ex_n1_def ex_n2_def ex_n3_def)

lemma ex_hasOutVariant:
  "hasOutVariant ex_env ex_n0" "hasOutVariant ex_env ex_n1"
  "\<not> hasOutVariant ex_env ex_n2" "hasOutVariant ex_env ex_n3"
  by (simp_all add: hasOutVariant_def ex_kinds ex_env_def ex_out_op_def)

lemma ex_computeStorageSize:
  "computeStorageSize ex_env ex_v1 = Some 24" "computeStorageSize ex_env ex_v2 = Some 24"
  "computeStorageSize ex_env ex_v3 = None" "computeStorageSize ex_env ex_v4 = None"
  "computeStorageSize ex_env ex_v5 = Some 24"
  by (simp_all add: computeStorageSize_def ex_v1_def ex_v2_def ex_v3_def ex_v4_def ex_v5_def
      ex_float23_def ex_env_def)

lemma ex_values_distinct:
  "ex_v1 \<noteq> ex_v2" "ex_v1 \<noteq> ex_v3" "ex_v1 \<noteq> ex_v5" "ex_v2 \<noteq> ex_v3" "ex_v2 \<noteq> ex_v5"
  "ex_v3 \<noteq> ex_v5" "ex_v2 \<noteq> ex_v1" "ex_v3 \<noteq> ex_v1" "ex_v3 \<noteq> ex_v2"
  by (simp_all add: ex_v1_def ex_v2_def ex_v3_def ex_v5_def)

lemma ex_getManagedValues:
  "getManagedValues ex_env ex_graph {ex_v5} = ([ex_n0, ex_n1, ex_n3], [(ex_v1, 24), (ex_v2, 24)])"
  by (simp add: getManagedValues_def getManagedValues_state_def ex_graph_def ex_hasOutVariant
      ex_outputs ex_computeStorageSize ex_values_distinct umap_insert_def)

section \<open>The size of the arena is the largest region end\<close>

lemma getTotalAllocationSize_is_max_aux:
  "getTotalAllocationSize allocations =
     Max (insert 0 ((\<lambda>item. offset (snd item) + size_reg (snd item)) ` set allocations))"
  unfolding getTotalAllocationSize_def by (rule fold_max_Max)

text \<open>
  In the program's own arithmetic: the total is the maximum, over the set of entries,
  of the 64-bit sums \<open>offset + size\<close>. The right-hand side is a maximum over a set, so
  the order of iteration has no influence.
\<close>

lemma getTotalAllocationSize_is_max:
  "getTotalAllocationSize allocations =
     Max (insert 0 ((\<lambda>item. offset (snd item) + size_reg (snd item)) ` set allocations))
   \<and> getTotalAllocationSize [] = 0"
proof
  show "getTotalAllocationSize allocations =
     Max (insert 0 ((\<lambda>item. offset (snd item) + size_reg (snd item)) ` set allocations))"
    by (rule getTotalAllocationSize_is_max_aux)
  show "getTotalAllocationSize [] = 0"
    by (simp add: getTotalAllocationSize_def)
qed

text \<open>The same, read as natural numbers: each sum is taken modulo \<open>2 ^ 64\<close>.\<close>

lemma getTotalAllocationSize_unat_mod:
  "unat (getTotalAllocationSize allocations) =
     Max (insert 0 ((\<lambda>item. (unat (offset (snd item)) + unat (size_reg (snd item))) mod 2 ^ 64)
                      ` set allocations))"
proof -
  let ?f = "\<lambda>item. offset (snd item) + size_reg (snd item)"
  let ?g = "\<lambda>item. (unat (offset (snd item)) + unat (size_reg (snd item))) mod 2 ^ 64"
  have mono: "mono (unat :: uint64 \<Rightarrow> nat)"
    by (simp add: mono_def word_le_nat_alt)
  have fin: "finite (insert 0 (?f ` set allocations))" "insert 0 (?f ` set allocations) \<noteq> {}"
    by simp_all
  have "unat (Max (insert 0 (?f ` set allocations))) = Max (unat ` insert 0 (?f ` set allocations))"
    by (rule mono_Max_commute[OF mono fin])
  also have "unat ` insert 0 (?f ` set allocations) = insert 0 ((unat \<circ> ?f) ` set allocations)"
    by (simp add: image_comp)
  also have "(unat \<circ> ?f) ` set allocations = ?g ` set allocations"
  proof (rule image_cong[OF refl])
    fix item assume "item \<in> set allocations"
    show "(unat \<circ> ?f) item = ?g item"
      by (simp add: unat_word_ariths)
  qed
  finally show ?thesis using getTotalAllocationSize_is_max_aux[of allocations] by simp
qed

text \<open>
  Claim C2, as it is stated, at a concrete input. The plan has one region, at offset
  \<open>2 ^ 64 - 8\<close> and of size 16. Its end \<open>offset + size\<close> is \<open>2 ^ 64 + 8\<close>, but the
  sum that the program computes wraps around, and the computed total arena size is 8:
  it is not the maximum of \<open>offset + size\<close>, and it is smaller than the size of the
  only region.
\<close>

theorem total_size_wraps_around:
  "unat (offset ex_wrap_region) + unat (size_reg ex_wrap_region) = 18446744073709551624 \<and>
   unat (getTotalAllocationSize ex_wrap_plan) = 8 \<and>
   unat (getTotalAllocationSize ex_wrap_plan)
     \<noteq> unat (offset ex_wrap_region) + unat (size_reg ex_wrap_region) \<and>
   unat (getTotalAllocationSize ex_wrap_plan) < unat (size_reg ex_wrap_region)"
proof -
  have 1: "unat (offset ex_wrap_region) + unat (size_reg ex_wrap_region) = 18446744073709551624"
    by (simp add: ex_wrap_region_def)
  have 2: "unat (getTotalAllocationSize ex_wrap_plan) = 8"
    by (simp add: getTotalAllocationSize_def ex_wrap_plan_def ex_wrap_region_def)
  have 3: "unat (size_reg ex_wrap_region) = 16"
    by (simp add: ex_wrap_region_def)
  from 1 2 3 show ?thesis by simp
qed

text \<open>
  Claim C2, amended. For every plan in which no region end \<open>offset + size\<close> exceeds
  \<open>2 ^ 64 - 1\<close>, the computed total arena size equals the maximum over all entries of
  \<open>offset + size\<close>. For every plan whatsoever it equals the maximum over all entries
  of \<open>offset + size\<close> taken modulo \<open>2 ^ 64\<close>. It is 0 for the empty plan.
\<close>

theorem getTotalAllocationSize_unat:
  "((\<forall>item \<in> set allocations.
        unat (offset (snd item)) + unat (size_reg (snd item)) < 2 ^ 64) \<longrightarrow>
      unat (getTotalAllocationSize allocations) =
        Max (insert 0 ((\<lambda>item. unat (offset (snd item)) + unat (size_reg (snd item)))
                         ` set allocations)))
   \<and> unat (getTotalAllocationSize allocations) =
        Max (insert 0 ((\<lambda>item. (unat (offset (snd item)) + unat (size_reg (snd item))) mod 2 ^ 64)
                         ` set allocations))
   \<and> getTotalAllocationSize [] = 0"
proof (intro conjI impI)
  assume fit: "\<forall>item \<in> set allocations.
        unat (offset (snd item)) + unat (size_reg (snd item)) < 2 ^ 64"
  have "(\<lambda>item. (unat (offset (snd item)) + unat (size_reg (snd item))) mod 2 ^ 64) ` set allocations
      = (\<lambda>item. unat (offset (snd item)) + unat (size_reg (snd item))) ` set allocations"
  proof (rule image_cong[OF refl])
    fix item assume "item \<in> set allocations"
    with fit have "unat (offset (snd item)) + unat (size_reg (snd item)) < 2 ^ 64" by blast
    then show "(unat (offset (snd item)) + unat (size_reg (snd item))) mod 2 ^ 64
        = unat (offset (snd item)) + unat (size_reg (snd item))"
      by simp
  qed
  with getTotalAllocationSize_unat_mod[of allocations]
  show "unat (getTotalAllocationSize allocations) =
        Max (insert 0 ((\<lambda>item. unat (offset (snd item)) + unat (size_reg (snd item)))
                         ` set allocations))"
    by simp
next
  show "unat (getTotalAllocationSize allocations) =
        Max (insert 0 ((\<lambda>item. (unat (offset (snd item)) + unat (size_reg (snd item))) mod 2 ^ 64)
                         ` set allocations))"
    by (rule getTotalAllocationSize_unat_mod)
next
  show "getTotalAllocationSize [] = 0"
    by (simp add: getTotalAllocationSize_def)
qed

theorem getTotalAllocationSize_unat_witness:
  "unat (0 :: uint64) + unat (24 :: uint64) < 2 ^ 64 \<and>
   unat (24 :: uint64) + unat (24 :: uint64) < 2 ^ 64 \<and>
   unat (getTotalAllocationSize ex_plan) = 48"
proof -
  have fit: "\<forall>item \<in> set ex_plan.
        unat (offset (snd item)) + unat (size_reg (snd item)) < 2 ^ 64"
    by (simp add: ex_plan_def)
  have m: "Max (insert 0 ((\<lambda>item. unat (offset (snd item)) + unat (size_reg (snd item)))
                         ` set ex_plan)) = 48"
    by (simp add: ex_plan_def)
  from getTotalAllocationSize_unat[of ex_plan] fit m
  have "unat (getTotalAllocationSize ex_plan) = 48" by simp
  then show ?thesis by simp
qed

section \<open>What the collector manages\<close>

lemma getManagedValues_out_nodes:
  "fst (getManagedValues env graph aa) = filter (hasOutVariant env) (nodes graph)"
proof -
  obtain on m l where st: "getManagedValues_state env graph aa = (on, m, l)"
    by (cases "getManagedValues_state env graph aa") auto
  have "on = [] @ filter (hasOutVariant env) (nodes graph)"
    using nodes_loop_out_nodes[of env aa "nodes graph" "[]" "([], {})"] st
    by (simp add: getManagedValues_state_def)
  with st show ?thesis by (simp add: getManagedValues_def)
qed

lemma getManagedValues_keys:
  "fst ` set (snd (getManagedValues env graph aa)) =
     {v. \<exists>n \<in> set (nodes graph). hasOutVariant env n \<and> v \<in> set (outputs n) \<and> v \<notin> aa \<and>
           (\<exists>s. computeStorageSize env v = Some s \<and> 0 < s)}"
proof -
  obtain on m l where st: "getManagedValues_state env graph aa = (on, m, l)"
    by (cases "getManagedValues_state env graph aa") auto
  have "fst ` set m = fst ` set [] \<union>
     {v. \<exists>n \<in> set (nodes graph). hasOutVariant env n \<and> v \<in> set (outputs n) \<and> v \<notin> aa \<and>
           (\<exists>s. computeStorageSize env v = Some s \<and> 0 < s)}"
    using nodes_loop_keys[of env aa "nodes graph" "[]" "[]" "{}"] st
    by (simp add: getManagedValues_state_def)
  with st show ?thesis by (simp add: getManagedValues_def)
qed

lemma getManagedValues_entries:
  assumes "(v, s) \<in> set (snd (getManagedValues env graph aa))"
  shows "computeStorageSize env v = Some s \<and> 0 < s"
proof -
  obtain on m l where st: "getManagedValues_state env graph aa = (on, m, l)"
    by (cases "getManagedValues_state env graph aa") auto
  with assms have "(v, s) \<in> set (fst (snd (getManagedValues_nodes env aa (nodes graph) ([], [], {}))))"
    by (simp add: getManagedValues_def getManagedValues_state_def)
  from nodes_loop_entries[OF this] show ?thesis by simp
qed

lemma leaked_values_eq:
  "leaked_values env graph aa =
     {v. \<exists>n \<in> set (nodes graph). hasOutVariant env n \<and> v \<in> set (outputs n) \<and> v \<notin> aa \<and>
           \<not> (\<exists>s. computeStorageSize env v = Some s \<and> 0 < s)}"
  using nodes_loop_leaked[of env aa "nodes graph" "[]" "[]" "{}"]
  by (simp add: leaked_values_def getManagedValues_state_def)

lemma computeStorageSize_None_iff:
  "computeStorageSize env v = None \<longleftrightarrow>
     (case v_type v of
        OtherT _ \<Rightarrow> True
      | TensorT ttp \<Rightarrow> scalarType ttp = None \<or> sizes ttp = None \<or> numel ttp = None)"
  by (simp add: computeStorageSize_def split: Type.splits option.splits)

text \<open>
  Claim C3. Take an output of a node that has an out variant, not pinned as always
  alive. If its byte size cannot be computed (it is not a tensor, or has no element
  type, no concrete sizes or no element count) or is 0, the collector leaves it out
  of the managed set and puts it with the leaked values; collection is a total
  function, so nothing fails, and the other values are treated as if the leaked one
  were not there: such an output with a positive size is managed, with that size.
  Every entry of the managed set has a defined, strictly positive size.
\<close>

theorem getManagedValues_leaks_unsized:
  "(\<forall>node \<in> set (nodes graph). hasOutVariant env node \<longrightarrow>
      (\<forall>out_v \<in> set (outputs node). out_v \<notin> aa \<longrightarrow>
         (computeStorageSize env out_v = None \<or> computeStorageSize env out_v = Some 0 \<longrightarrow>
            out_v \<notin> fst ` set (snd (getManagedValues env graph aa)) \<and>
            out_v \<in> leaked_values env graph aa) \<and>
         (\<forall>s. computeStorageSize env out_v = Some s \<and> 0 < s \<longrightarrow>
            (out_v, s) \<in> set (snd (getManagedValues env graph aa)))))
   \<and> (\<forall>(v, s) \<in> set (snd (getManagedValues env graph aa)).
         computeStorageSize env v = Some s \<and> 0 < s)
   \<and> (\<forall>v. computeStorageSize env v = None \<longleftrightarrow>
         (case v_type v of
            OtherT _ \<Rightarrow> True
          | TensorT ttp \<Rightarrow> scalarType ttp = None \<or> sizes ttp = None \<or> numel ttp = None))"
proof (intro conjI ballI impI allI)
  fix node out_v
  assume n: "node \<in> set (nodes graph)" "hasOutVariant env node"
    and v: "out_v \<in> set (outputs node)" "out_v \<notin> aa"
    and z: "computeStorageSize env out_v = None \<or> computeStorageSize env out_v = Some 0"
  from z have no: "\<not> (\<exists>s. computeStorageSize env out_v = Some s \<and> 0 < s)" by auto
  then show "out_v \<notin> fst ` set (snd (getManagedValues env graph aa))"
    unfolding getManagedValues_keys by blast
  from n v no show "out_v \<in> leaked_values env graph aa"
    unfolding leaked_values_eq by blast
next
  fix node out_v s
  assume n: "node \<in> set (nodes graph)" "hasOutVariant env node"
    and v: "out_v \<in> set (outputs node)" "out_v \<notin> aa"
    and s: "computeStorageSize env out_v = Some s \<and> 0 < s"
  from n v s have "out_v \<in> fst ` set (snd (getManagedValues env graph aa))"
    unfolding getManagedValues_keys by blast
  then obtain s' where e: "(out_v, s') \<in> set (snd (getManagedValues env graph aa))" by force
  from getManagedValues_entries[OF e] s have "s' = s" by simp
  with e show "(out_v, s) \<in> set (snd (getManagedValues env graph aa))" by simp
next
  fix x assume a: "x \<in> set (snd (getManagedValues env graph aa))"
  obtain v s where x: "x = (v, s)" by (cases x)
  from a x getManagedValues_entries[of v s env graph aa]
  show "case x of (v, s) \<Rightarrow> computeStorageSize env v = Some s \<and> 0 < s" by simp
next
  fix v
  show "computeStorageSize env v = None \<longleftrightarrow>
         (case v_type v of
            OtherT _ \<Rightarrow> True
          | TensorT ttp \<Rightarrow> scalarType ttp = None \<or> sizes ttp = None \<or> numel ttp = None)"
    by (rule computeStorageSize_None_iff)
qed

theorem getManagedValues_leaks_unsized_witness:
  "ex_n1 \<in> set (nodes ex_graph) \<and> hasOutVariant ex_env ex_n1 \<and>
   ex_v3 \<in> set (outputs ex_n1) \<and> ex_v2 \<in> set (outputs ex_n1) \<and>
   ex_v3 \<notin> {ex_v5} \<and> ex_v2 \<notin> {ex_v5} \<and>
   computeStorageSize ex_env ex_v3 = None \<and>
   computeStorageSize ex_env ex_v2 = Some 24 \<and>
   ex_v3 \<notin> fst ` set (snd (getManagedValues ex_env ex_graph {ex_v5})) \<and>
   ex_v3 \<in> leaked_values ex_env ex_graph {ex_v5} \<and>
   (ex_v2, 24) \<in> set (snd (getManagedValues ex_env ex_graph {ex_v5}))"
proof -
  have n: "ex_n1 \<in> set (nodes ex_graph)"
    by (simp add: ex_graph_def)
  have h: "hasOutVariant ex_env ex_n1"
    by (simp add: hasOutVariant_def ex_env_def ex_n1_def ex_out_op_def)
  have o: "ex_v3 \<in> set (outputs ex_n1)" "ex_v2 \<in> set (outputs ex_n1)"
    by (simp_all add: ex_n1_def)
  have a: "ex_v3 \<notin> {ex_v5}" "ex_v2 \<notin> {ex_v5}"
    by (simp_all add: ex_v2_def ex_v3_def ex_v5_def)
  have s3: "computeStorageSize ex_env ex_v3 = None"
    by (simp add: computeStorageSize_def ex_v3_def)
  have s2: "computeStorageSize ex_env ex_v2 = Some 24"
    by (simp add: computeStorageSize_def ex_v2_def ex_float23_def ex_env_def)
  have p: "(0::uint64) < 24" by simp
  from getManagedValues_leaks_unsized[of ex_graph ex_env "{ex_v5}"] n h o a s3 s2 p
  show ?thesis by blast
qed

section \<open>Always-alive values are never planned\<close>






section \<open>Which nodes are considered\<close>

text \<open>
  Claim C10. A node has an out variant exactly when some overload registered for its
  kind has an argument named \<open>out\<close>. The out-node list is the list of such nodes, in
  program order; every managed value is an output of such a node; and the nodes
  without such an overload contribute nothing: dropping them from the graph leaves the
  collector's result as it is.
\<close>

theorem out_variant_nodes_only:
  "(hasOutVariant env node \<longleftrightarrow>
      (\<exists>variant \<in> set (getAllOperatorsFor env (kind node)).
         \<exists>arg \<in> set (arguments (schema variant)). name arg = ''out''))
   \<and> fst (getManagedValues env graph aa) = filter (hasOutVariant env) (nodes graph)
   \<and> (\<forall>v \<in> fst ` set (snd (getManagedValues env graph aa)).
         \<exists>n \<in> set (nodes graph). hasOutVariant env n \<and> v \<in> set (outputs n))
   \<and> getManagedValues env (graph\<lparr>nodes := filter (hasOutVariant env) (nodes graph)\<rparr>) aa
       = getManagedValues env graph aa"
proof (intro conjI ballI)
  show "hasOutVariant env node \<longleftrightarrow>
      (\<exists>variant \<in> set (getAllOperatorsFor env (kind node)).
         \<exists>arg \<in> set (arguments (schema variant)). name arg = ''out'')"
    unfolding hasOutVariant_def by (rule hasOutVariant_loop_iff)
  show "fst (getManagedValues env graph aa) = filter (hasOutVariant env) (nodes graph)"
    by (rule getManagedValues_out_nodes)
  show "getManagedValues env (graph\<lparr>nodes := filter (hasOutVariant env) (nodes graph)\<rparr>) aa
       = getManagedValues env graph aa"
    by (simp add: getManagedValues_def getManagedValues_state_def nodes_loop_filter)
next
  fix v assume "v \<in> fst ` set (snd (getManagedValues env graph aa))"
  then show "\<exists>n \<in> set (nodes graph). hasOutVariant env n \<and> v \<in> set (outputs n)"
    unfolding getManagedValues_keys by blast
qed

theorem out_variant_nodes_only_witness:
  "\<not> hasOutVariant ex_env ex_n2 \<and> hasOutVariant ex_env ex_n1 \<and>
   fst (getManagedValues ex_env ex_graph {ex_v5}) = [ex_n0, ex_n1, ex_n3] \<and>
   ex_v2 \<in> fst ` set (snd (getManagedValues ex_env ex_graph {ex_v5})) \<and>
   (\<exists>n \<in> set (nodes ex_graph). hasOutVariant ex_env n \<and> ex_v2 \<in> set (outputs n))"
proof -
  have f: "filter (hasOutVariant ex_env) (nodes ex_graph) = [ex_n0, ex_n1, ex_n3]"
    by (simp add: ex_graph_def ex_hasOutVariant)
  have m: "ex_v2 \<in> fst ` set (snd (getManagedValues ex_env ex_graph {ex_v5}))"
    by (simp add: ex_getManagedValues)
  note t = out_variant_nodes_only[of ex_env ex_n1 ex_graph "{ex_v5}"]
  from t have 1: "fst (getManagedValues ex_env ex_graph {ex_v5}) =
      filter (hasOutVariant ex_env) (nodes ex_graph)"
    by blast
  from t m have 2: "\<exists>n \<in> set (nodes ex_graph). hasOutVariant ex_env n \<and> ex_v2 \<in> set (outputs n)"
    by blast
  from 1 2 f m ex_hasOutVariant show ?thesis by simp
qed

section \<open>No planning, no rewriting\<close>

text \<open>
  Claim C4. With the strategy \<open>NAIVE\<close>, or with a selector that is none of the four
  enumerators, \<^verbatim>\<open>planMemory\<close> returns without an error and with the graph it was
  given: no node is inserted and no node is changed.
\<close>

theorem planMemory_no_planning:
  "planMemory env graph NAIVE = (graph, None)
   \<and> planMemory env graph (Unlisted k) = (graph, None)"
  by (simp add: planMemory_def planMemory_allocations_def split: prod.splits)

section \<open>Extents and strides of a binding\<close>

lemma defaultStrides_row_major: "defaultStrides [2, 3, 4] = [12, 4, 1]"
  by simp



section \<open>Facts about the rewriting primitives\<close>

lemma prim_kinds_distinct [simp]:
  "prim_AllocateStorage \<noteq> prim_AllocateTensor" "prim_AllocateTensor \<noteq> prim_AllocateStorage"
  by (simp_all add: prim_AllocateStorage_def prim_AllocateTensor_def)

lemma addInput_fields [simp]:
  "nid (addInput v n) = nid n" "kind (addInput v n) = kind n"
  "outputs (addInput v n) = outputs n" "attrs (addInput v n) = attrs n"
  "inputs (addInput v n) = inputs n @ [v]"
  by (simp_all add: addInput_def)

lemma i_set_fields [simp]:
  "nid (i_set a x n) = nid n" "kind (i_set a x n) = kind n"
  "outputs (i_set a x n) = outputs n" "inputs (i_set a x n) = inputs n"
  "attrs (i_set a x n) = setAttr a (AttrI x) (attrs n)"
  by (simp_all add: i_set_def)

lemma is_set_fields [simp]:
  "nid (is_set a xs n) = nid n" "kind (is_set a xs n) = kind n"
  "outputs (is_set a xs n) = outputs n" "inputs (is_set a xs n) = inputs n"
  "attrs (is_set a xs n) = setAttr a (AttrIs xs) (attrs n)"
  by (simp_all add: is_set_def)

lemma update_node_fields [simp]:
  "next_unique (update_node i f g) = next_unique g"
  "nodes (update_node i f g) = map (\<lambda>n. if nid n = i then f n else n) (nodes g)"
  by (simp_all add: update_node_def)

lemma create_eq:
  "create g k =
     (\<lparr>nid = next_unique g, kind = k, inputs = [],
       outputs = [\<lparr>unique = next_unique g, v_type = unshaped_tensor, v_node = next_unique g\<rparr>],
       attrs = []\<rparr>,
      g\<lparr>next_unique := Suc (next_unique g)\<rparr>)"
  by (simp add: create_def)

lemma insertBefore_list_Some:
  "insertBefore_list a i ns = Some ns' \<Longrightarrow>
     \<exists>pre p post. ns = pre @ p # post \<and> ns' = pre @ a # p # post \<and> nid p = i \<and>
       (\<forall>n \<in> set pre. nid n \<noteq> i)"
proof (induction ns arbitrary: ns')
  case Nil
  then show ?case by simp
next
  case (Cons n ns)
  show ?case
  proof (cases "nid n = i")
    case True
    with Cons.prems have "ns' = a # n # ns" by simp
    with True show ?thesis by (intro exI[of _ "[]"] exI[of _ n] exI[of _ ns]) simp
  next
    case False
    with Cons.prems obtain ms where ms: "insertBefore_list a i ns = Some ms" "ns' = n # ms"
      by auto
    from Cons.IH[OF ms(1)] obtain pre p post where
      d: "ns = pre @ p # post" "ms = pre @ a # p # post" "nid p = i" "\<forall>n \<in> set pre. nid n \<noteq> i"
      by blast
    with False ms(2) show ?thesis
      by (intro exI[of _ "n # pre"] exI[of _ p] exI[of _ post]) simp
  qed
qed

lemma insertBefore_list_None_iff:
  "insertBefore_list a i ns = None \<longleftrightarrow> i \<notin> nid ` set ns"
  by (induction ns) auto

lemma insertBefore_Some:
  assumes "insertBefore a i g = Some g'"
  shows "next_unique g' = next_unique g \<and>
     (\<exists>pre p post. nodes g = pre @ p # post \<and> nodes g' = pre @ a # p # post \<and> nid p = i \<and>
        (\<forall>n \<in> set pre. nid n \<noteq> i))"
proof -
  from assms obtain ns' where ns': "insertBefore_list a i (nodes g) = Some ns'"
    and g': "g' = g\<lparr>nodes := ns'\<rparr>"
    by (auto simp: insertBefore_def)
  from insertBefore_list_Some[OF ns'] g' show ?thesis by auto
qed

section \<open>Facts about one round of the binding loop\<close>

lemma length_filter_update:
  assumes "\<And>n. P (f n) = P n"
  shows "length (filter P (map (\<lambda>n. if nid n = i then f n else n) ns)) = length (filter P ns)"
  using assms by (induction ns) auto

lemma update_node_count:
  assumes "\<And>n. P (f n) = P n"
  shows "length (filter P (nodes (update_node i f g))) = length (filter P (nodes g))"
  using length_filter_update[of P f i "nodes g"] assms by simp

lemma insertBefore_count:
  assumes "insertBefore a i g = Some g'"
  shows "length (filter P (nodes g')) = length (filter P (nodes g)) + (if P a then 1 else 0)"
proof -
  from insertBefore_Some[OF assms] obtain pre p post where
    "nodes g = pre @ p # post" "nodes g' = pre @ a # p # post" by blast
  then show ?thesis by simp
qed

lemma insertBefore_next_unique:
  "insertBefore a i g = Some g' \<Longrightarrow> next_unique g' = next_unique g"
  by (simp add: insertBefore_Some)

lemma body_next_unique:
  "next_unique (fst (insertAllocTensorNodes_body storage total_size g a)) = Suc (next_unique g)"
  by (auto simp: insertAllocTensorNodes_body_def create_eq Let_def output_of_def
      dest!: insertBefore_next_unique
      split: sum.splits option.splits Type.splits prod.splits)

lemma body_count:
  assumes "\<not> P \<lparr>nid = next_unique g, kind = prim_AllocateTensor, inputs = [],
       outputs = [\<lparr>unique = next_unique g, v_type = unshaped_tensor, v_node = next_unique g\<rparr>],
       attrs = []\<rparr>"
     and "\<And>v n. P (addInput v n) = P n" "\<And>a x n. P (i_set a x n) = P n"
         "\<And>a x n. P (is_set a x n) = P n"
  shows "length (filter P (nodes (fst (insertAllocTensorNodes_body storage total_size g a)))) =
         length (filter P (nodes g))"
  using assms
  by (auto simp: insertAllocTensorNodes_body_def create_eq Let_def output_of_def update_node_count
      simp del: update_node_fields
      dest!: insertBefore_count[where P=P]
      split: sum.splits option.splits Type.splits prod.splits)


lemma map_nid_update:
  assumes "\<And>n. nid (f n) = nid n"
  shows "map nid (map (\<lambda>n. if nid n = i then f n else n) ns) = map nid ns"
  using assms by (induction ns) auto

lemma update_node_nids:
  assumes "\<And>n. nid (f n) = nid n"
  shows "map nid (nodes (update_node i f g)) = map nid (nodes g)"
  using map_nid_update[of f i "nodes g"] assms by simp

lemma update_node_nid_set:
  assumes "\<And>n. nid (f n) = nid n"
  shows "nid ` set (nodes (update_node i f g)) = nid ` set (nodes g)"
proof -
  have "set (map nid (nodes (update_node i f g))) = set (map nid (nodes g))"
    using update_node_nids[OF assms] by simp
  then show ?thesis by (simp only: set_map)
qed

lemma insertBefore_None_iff:
  "insertBefore a i g = None \<longleftrightarrow> i \<notin> nid ` set (nodes g)"
  by (simp add: insertBefore_def insertBefore_list_None_iff)

lemma insertBefore_addInput_iff:
  "insertBefore a i (update_node j (addInput v) (g\<lparr>next_unique := k\<rparr>)) = None
     \<longleftrightarrow> i \<notin> nid ` set (nodes g)"
  unfolding insertBefore_None_iff by (subst update_node_nid_set) simp_all

lemma insertBefore_addInput_Some:
  "insertBefore a i (update_node j (addInput v) (g\<lparr>next_unique := k\<rparr>)) = Some g'
     \<Longrightarrow> i \<in> nid ` set (nodes g)"
  using insertBefore_addInput_iff[where a=a and i=i and j=j and v=v and g=g and k=k] by auto

lemma insertBefore_length:
  "insertBefore a i g = Some g' \<Longrightarrow> length (nodes g') = Suc (length (nodes g))"
  using insertBefore_count[of a i g g' "\<lambda>n. True"] by simp

lemma body_length:
  "length (nodes (fst (insertAllocTensorNodes_body storage total_size g a))) =
     (if v_node (fst a) \<in> nid ` set (nodes g) then Suc (length (nodes g)) else length (nodes g))"
proof (cases "insertBefore
      \<lparr>nid = next_unique g, kind = prim_AllocateTensor, inputs = [],
       outputs = [\<lparr>unique = next_unique g, v_type = unshaped_tensor, v_node = next_unique g\<rparr>],
       attrs = []\<rparr> (v_node (fst a))
      (update_node (v_node (fst a))
         (addInput \<lparr>unique = next_unique g, v_type = unshaped_tensor, v_node = next_unique g\<rparr>)
         (g\<lparr>next_unique := Suc (next_unique g)\<rparr>))")
  case None
  then have "v_node (fst a) \<notin> nid ` set (nodes g)"
    by (rule insertBefore_addInput_iff[THEN iffD1])
  with None show ?thesis
    by (simp add: insertAllocTensorNodes_body_def create_eq Let_def output_of_def)
next
  case (Some g3)
  then have "v_node (fst a) \<in> nid ` set (nodes g)"
    by (rule insertBefore_addInput_Some)
  moreover from insertBefore_length[OF Some] have "length (nodes g3) = Suc (length (nodes g))"
    by simp
  ultimately show ?thesis using Some
    by (auto simp: insertAllocTensorNodes_body_def create_eq Let_def output_of_def
        split: sum.splits option.splits Type.splits prod.splits)
qed

lemma body_CheckFailed:
  assumes "snd (insertAllocTensorNodes_body storage total_size g a) = Some CheckFailed"
  shows "v_node (fst a) \<in> nid ` set (nodes g) \<and>
         \<not> offset (snd a) + size_reg (snd a) \<le> total_size"
  using assms
  by (auto simp: insertAllocTensorNodes_body_def create_eq Let_def output_of_def i_get_def
      simp del: update_node_fields
      dest: insertBefore_addInput_Some
      split: sum.splits option.splits Type.splits prod.splits if_splits list.splits
        attr_value.splits)

lemma body_None:
  assumes "snd (insertAllocTensorNodes_body storage total_size g a) = None"
  shows "v_node (fst a) \<in> nid ` set (nodes g) \<and>
         offset (snd a) + size_reg (snd a) \<le> total_size"
  using assms
  by (auto simp: insertAllocTensorNodes_body_def create_eq Let_def output_of_def i_get_def
      simp del: update_node_fields
      dest: insertBefore_addInput_Some
      split: sum.splits option.splits Type.splits prod.splits if_splits list.splits
        attr_value.splits)

section \<open>Facts about the binding loop\<close>

lemma body_count_kind:
  assumes "K \<noteq> prim_AllocateTensor"
  shows "length (filter (\<lambda>n. kind n = K) (nodes (fst (insertAllocTensorNodes_body storage total_size g a)))) =
         length (filter (\<lambda>n. kind n = K) (nodes g))"
  using assms by (intro body_count) auto

lemma loop_count_kind:
  assumes "K \<noteq> prim_AllocateTensor"
  shows "length (filter (\<lambda>n. kind n = K)
           (nodes (fst (insertAllocTensorNodes_loop storage total_size g allocations)))) =
         length (filter (\<lambda>n. kind n = K) (nodes g))"
proof (induction allocations arbitrary: g)
  case Nil
  then show ?case by simp
next
  case (Cons a rest)
  obtain g' e where b: "insertAllocTensorNodes_body storage total_size g a = (g', e)"
    by (cases "insertAllocTensorNodes_body storage total_size g a")
  with body_count_kind[OF assms, of storage total_size g a]
  have c: "length (filter (\<lambda>n. kind n = K) (nodes g')) = length (filter (\<lambda>n. kind n = K) (nodes g))"
    by simp
  show ?case
  proof (cases e)
    case None
    with b c Cons.IH[of g'] show ?thesis by simp
  next
    case (Some err)
    with b c show ?thesis by simp
  qed
qed

lemma loop_None:
  assumes "snd (insertAllocTensorNodes_loop storage total_size g allocations) = None"
  shows "\<forall>a \<in> set allocations. offset (snd a) + size_reg (snd a) \<le> total_size"
  using assms
proof (induction allocations arbitrary: g)
  case Nil
  then show ?case by simp
next
  case (Cons a rest)
  obtain g' e where b: "insertAllocTensorNodes_body storage total_size g a = (g', e)"
    by (cases "insertAllocTensorNodes_body storage total_size g a")
  show ?case
  proof (cases e)
    case None
    with b body_None[of storage total_size g a]
    have "offset (snd a) + size_reg (snd a) \<le> total_size" by simp
    moreover from None b Cons.prems
    have "snd (insertAllocTensorNodes_loop storage total_size g' rest) = None" by simp
    from Cons.IH[OF this] have "\<forall>a \<in> set rest. offset (snd a) + size_reg (snd a) \<le> total_size" .
    ultimately show ?thesis by simp
  next
    case (Some err)
    with b Cons.prems show ?thesis by simp
  qed
qed

lemma loop_length_mono:
  "length (nodes g) \<le> length (nodes (fst (insertAllocTensorNodes_loop storage total_size g allocations)))"
proof (induction allocations arbitrary: g)
  case Nil
  then show ?case by simp
next
  case (Cons a rest)
  obtain g' e where b: "insertAllocTensorNodes_body storage total_size g a = (g', e)"
    by (cases "insertAllocTensorNodes_body storage total_size g a")
  with body_length[of storage total_size g a] have l: "length (nodes g) \<le> length (nodes g')"
    by (simp split: if_splits)
  show ?case
  proof (cases e)
    case None
    with b l Cons.IH[of g'] show ?thesis by simp
  next
    case (Some err)
    with b l show ?thesis by simp
  qed
qed

lemma loop_CheckFailed:
  assumes "snd (insertAllocTensorNodes_loop storage total_size g allocations) = Some CheckFailed"
  shows "length (nodes g) < length (nodes (fst (insertAllocTensorNodes_loop storage total_size g allocations)))"
  using assms
proof (induction allocations arbitrary: g)
  case Nil
  then show ?case by simp
next
  case (Cons a rest)
  obtain g' e where b: "insertAllocTensorNodes_body storage total_size g a = (g', e)"
    by (cases "insertAllocTensorNodes_body storage total_size g a")
  with body_length[of storage total_size g a] have l: "length (nodes g) \<le> length (nodes g')"
    by (simp split: if_splits)
  show ?case
  proof (cases e)
    case None
    with b Cons.prems
    have "snd (insertAllocTensorNodes_loop storage total_size g' rest) = Some CheckFailed" by simp
    from Cons.IH[OF this] l None b show ?thesis by simp
  next
    case (Some err)
    with b Cons.prems have err: "err = CheckFailed" by simp
    with Some b body_CheckFailed[of storage total_size g a]
    have "v_node (fst a) \<in> nid ` set (nodes g)" by simp
    with body_length[of storage total_size g a] b
    have "length (nodes g') = Suc (length (nodes g))" by simp
    with Some b show ?thesis by simp
  qed
qed

section \<open>A region beyond the arena\<close>

lemma insertAllocTensorNodes_None:
  assumes "snd (insertAllocTensorNodes graph storage allocations) = None"
  shows "\<exists>total_size. i_get storage attr_total_size = Inr total_size \<and>
           (\<forall>a \<in> set allocations. offset (snd a) + size_reg (snd a) \<le> total_size)"
proof (cases "i_get storage attr_total_size")
  case (Inl e)
  with assms show ?thesis by (simp add: insertAllocTensorNodes_def)
next
  case (Inr total_size)
  with assms have "snd (insertAllocTensorNodes_loop storage total_size graph allocations) = None"
    by (simp add: insertAllocTensorNodes_def)
  from loop_None[OF this] Inr show ?thesis by simp
qed

lemma insertAllocTensorNodes_CheckFailed:
  assumes "snd (insertAllocTensorNodes graph storage allocations) = Some CheckFailed"
  shows "length (nodes graph) < length (nodes (fst (insertAllocTensorNodes graph storage allocations)))"
proof (cases "i_get storage attr_total_size")
  case (Inl e)
  then have "e = AssertFailed"
    by (simp add: i_get_def split: option.splits attr_value.splits)
  with Inl assms show ?thesis by (simp add: insertAllocTensorNodes_def)
next
  case (Inr total_size)
  with assms
  have "snd (insertAllocTensorNodes_loop storage total_size graph allocations) = Some CheckFailed"
    by (simp add: insertAllocTensorNodes_def)
  from loop_CheckFailed[OF this] Inr show ?thesis by (simp add: insertAllocTensorNodes_def)
qed

text \<open>
  Claim C1, as it is stated, at a concrete input. The arena node declares 48 bytes and
  the second region of the plan ends at byte 64. Plan application ends with the failed
  check, but not with the graph it was given: the first binding (node 7) is complete
  and its producer (node 0) has it as an input, and the directive of the offending
  binding (node 8, no attributes yet) is in the graph and is an input of its producer
  (node 1, now with two inputs). The lists give, node by node, the identity, the
  number of inputs and the number of attributes.
\<close>

theorem abort_leaves_rewritten_graph:
  "i_get ex_storage attr_total_size = Inr 48 \<and>
   \<not> offset \<lparr>offset = 40, size_reg = 24\<rparr> + size_reg \<lparr>offset = 40, size_reg = 24\<rparr> \<le> (48 :: uint64) \<and>
   snd (insertAllocTensorNodes ex_graph1 ex_storage ex_corrupt_plan) = Some CheckFailed \<and>
   map nid (nodes ex_graph1) = [6, 0, 1, 2, 3] \<and>
   map (length \<circ> inputs) (nodes ex_graph1) = [0, 0, 1, 2, 1] \<and>
   map nid (nodes (fst (insertAllocTensorNodes ex_graph1 ex_storage ex_corrupt_plan))) =
     [6, 7, 0, 8, 1, 2, 3] \<and>
   map (length \<circ> inputs)
       (nodes (fst (insertAllocTensorNodes ex_graph1 ex_storage ex_corrupt_plan))) =
     [0, 1, 1, 1, 2, 2, 1] \<and>
   map (length \<circ> attrs)
       (nodes (fst (insertAllocTensorNodes ex_graph1 ex_storage ex_corrupt_plan))) =
     [2, 6, 0, 0, 0, 0, 0] \<and>
   fst (insertAllocTensorNodes ex_graph1 ex_storage ex_corrupt_plan) \<noteq> ex_graph1"
proof -
  have 1: "i_get ex_storage attr_total_size = Inr 48"
    by code_simp
  have 2: "\<not> offset \<lparr>offset = 40, size_reg = 24\<rparr> + size_reg \<lparr>offset = 40, size_reg = 24\<rparr> \<le> (48 :: uint64)"
    by simp
  have 3: "snd (insertAllocTensorNodes ex_graph1 ex_storage ex_corrupt_plan) = Some CheckFailed"
    by code_simp
  have 4: "map nid (nodes ex_graph1) = [6, 0, 1, 2, 3]"
    by code_simp
  have 5: "map (length \<circ> inputs) (nodes ex_graph1) = [0, 0, 1, 2, 1]"
    by code_simp
  have 6: "map nid (nodes (fst (insertAllocTensorNodes ex_graph1 ex_storage ex_corrupt_plan))) =
     [6, 7, 0, 8, 1, 2, 3]"
    by code_simp
  have 7: "map (length \<circ> inputs)
       (nodes (fst (insertAllocTensorNodes ex_graph1 ex_storage ex_corrupt_plan))) =
     [0, 1, 1, 1, 2, 2, 1]"
    by code_simp
  have 8: "map (length \<circ> attrs)
       (nodes (fst (insertAllocTensorNodes ex_graph1 ex_storage ex_corrupt_plan))) =
     [2, 6, 0, 0, 0, 0, 0]"
    by code_simp
  have 9: "fst (insertAllocTensorNodes ex_graph1 ex_storage ex_corrupt_plan) \<noteq> ex_graph1"
  proof
    assume "fst (insertAllocTensorNodes ex_graph1 ex_storage ex_corrupt_plan) = ex_graph1"
    with 6 have "map nid (nodes ex_graph1) = [6, 7, 0, 8, 1, 2, 3]" by simp
    with 4 show False by simp
  qed
  from 1 2 3 4 5 6 7 8 9 show ?thesis by blast
qed

text \<open>
  Claim C1, amended. If some entry of the plan has a region whose end \<open>offset + size\<close>
  (the unsigned 64-bit sum) exceeds the total size that the arena node declares, plan
  application ends with an error. It does not end before the rewriting: the check
  is made for one binding at a time, after the directive of that binding has been
  created, inserted and wired, so whenever it is the check that fails, the graph has
  gained at least one node.
\<close>

theorem exceeding_region_aborts:
  assumes "i_get storage attr_total_size = Inr total_size"
    and "a \<in> set allocations"
    and "\<not> offset (snd a) + size_reg (snd a) \<le> total_size"
  shows "snd (insertAllocTensorNodes graph storage allocations) \<noteq> None
    \<and> (snd (insertAllocTensorNodes graph storage allocations) = Some CheckFailed \<longrightarrow>
         length (nodes graph) <
           length (nodes (fst (insertAllocTensorNodes graph storage allocations))))"
proof
  show "snd (insertAllocTensorNodes graph storage allocations) \<noteq> None"
  proof
    assume "snd (insertAllocTensorNodes graph storage allocations) = None"
    from insertAllocTensorNodes_None[OF this] assms show False by auto
  qed
  show "snd (insertAllocTensorNodes graph storage allocations) = Some CheckFailed \<longrightarrow>
         length (nodes graph) <
           length (nodes (fst (insertAllocTensorNodes graph storage allocations)))"
    using insertAllocTensorNodes_CheckFailed by blast
qed

theorem exceeding_region_aborts_witness:
  "i_get ex_storage attr_total_size = Inr 48 \<and>
   (ex_v2, \<lparr>offset = 40, size_reg = 24\<rparr>) \<in> set ex_corrupt_plan \<and>
   \<not> offset \<lparr>offset = 40, size_reg = 24\<rparr> + size_reg \<lparr>offset = 40, size_reg = 24\<rparr> \<le> (48 :: uint64) \<and>
   snd (insertAllocTensorNodes ex_graph1 ex_storage ex_corrupt_plan) = Some CheckFailed \<and>
   length (nodes ex_graph1) <
     length (nodes (fst (insertAllocTensorNodes ex_graph1 ex_storage ex_corrupt_plan)))"
proof -
  have 1: "i_get ex_storage attr_total_size = Inr 48"
    by code_simp
  have 2: "(ex_v2, \<lparr>offset = 40, size_reg = 24\<rparr>) \<in> set ex_corrupt_plan"
    by (simp add: ex_corrupt_plan_def)
  have 3: "\<not> offset (snd (ex_v2, \<lparr>offset = 40, size_reg = 24\<rparr>))
             + size_reg (snd (ex_v2, \<lparr>offset = 40, size_reg = 24\<rparr>)) \<le> (48 :: uint64)"
    by simp
  have 4: "snd (insertAllocTensorNodes ex_graph1 ex_storage ex_corrupt_plan) = Some CheckFailed"
    by code_simp
  from exceeding_region_aborts[OF 1 2 3, of ex_graph1] 1 2 3 4 show ?thesis by simp
qed

section \<open>The arena node\<close>

lemma take1_update:
  assumes "take (Suc 0) ns = [h]" "i \<noteq> nid h"
  shows "take (Suc 0) (map (\<lambda>n. if nid n = i then f n else n) ns) = [h]"
  using assms by (cases ns) auto

lemma update_node_head:
  assumes "take (Suc 0) (nodes g) = [h]" "i \<noteq> nid h"
  shows "take (Suc 0) (nodes (update_node i f g)) = [h]"
  using take1_update[OF assms] by simp

lemma insertBefore_head:
  assumes "insertBefore a i g = Some g'" "take (Suc 0) (nodes g) = [h]" "i \<noteq> nid h"
  shows "take (Suc 0) (nodes g') = [h]"
proof -
  from insertBefore_Some[OF assms(1)] obtain pre p post where
    d: "nodes g = pre @ p # post" "nodes g' = pre @ a # p # post" "nid p = i" by blast
  from assms(2,3) d(1,3) have "pre \<noteq> []" by (cases pre) auto
  with d assms(2) show ?thesis by (cases pre) auto
qed

lemma body_head:
  assumes "take (Suc 0) (nodes g) = [h]" "v_node (fst a) \<noteq> nid h" "next_unique g \<noteq> nid h"
  shows "take (Suc 0) (nodes (fst (insertAllocTensorNodes_body storage total_size g a))) = [h]"
proof -
  let ?out = "\<lparr>unique = next_unique g, v_type = unshaped_tensor, v_node = next_unique g\<rparr>"
  let ?alloc = "\<lparr>nid = next_unique g, kind = prim_AllocateTensor, inputs = [],
       outputs = [?out], attrs = []\<rparr>"
  let ?g2 = "update_node (v_node (fst a)) (addInput ?out) (g\<lparr>next_unique := Suc (next_unique g)\<rparr>)"
  have h2: "take (Suc 0) (nodes ?g2) = [h]"
    using assms(1,2) by (intro update_node_head) simp_all
  show ?thesis
  proof (cases "insertBefore ?alloc (v_node (fst a)) ?g2")
    case None
    with h2 show ?thesis
      by (simp add: insertAllocTensorNodes_body_def create_eq Let_def output_of_def
          del: update_node_fields)
  next
    case (Some g3)
    from insertBefore_head[OF Some h2 assms(2)] have h3: "take (Suc 0) (nodes g3) = [h]" .
    have upd: "\<And>f g'. take (Suc 0) (nodes g') = [h] \<Longrightarrow>
        take (Suc 0) (nodes (update_node (next_unique g) f g')) = [h]"
      using assms(3) by (intro update_node_head) simp_all
    from Some h3 show ?thesis
      by (auto simp: insertAllocTensorNodes_body_def create_eq Let_def output_of_def upd
          simp del: update_node_fields
          split: sum.splits option.splits Type.splits prod.splits)
  qed
qed

lemma loop_head:
  assumes "take (Suc 0) (nodes g) = [h]" "\<forall>a \<in> set allocations. v_node (fst a) \<noteq> nid h"
    "nid h < next_unique g"
  shows "take (Suc 0) (nodes (fst (insertAllocTensorNodes_loop storage total_size g allocations))) = [h]"
  using assms
proof (induction allocations arbitrary: g)
  case Nil
  then show ?case by simp
next
  case (Cons a rest)
  obtain g' e where b: "insertAllocTensorNodes_body storage total_size g a = (g', e)"
    by (cases "insertAllocTensorNodes_body storage total_size g a")
  from Cons.prems have "take (Suc 0) (nodes (fst (insertAllocTensorNodes_body storage total_size g a))) = [h]"
    by (intro body_head) auto
  with b have h: "take (Suc 0) (nodes g') = [h]" by simp
  from body_next_unique[of storage total_size g a] b Cons.prems(3)
  have n: "nid h < next_unique g'" by simp
  show ?case
  proof (cases e)
    case None
    with b Cons.IH[OF h _ n] Cons.prems(2) show ?thesis by simp
  next
    case (Some err)
    with b h show ?thesis by simp
  qed
qed

lemma insertAllocStorageNode_eq:
  "insertAllocStorageNode env graph total_size =
     (\<lparr>nid = next_unique graph, kind = prim_AllocateStorage, inputs = [],
       outputs = [\<lparr>unique = next_unique graph, v_type = unshaped_tensor,
                   v_node = next_unique graph\<rparr>],
       attrs = [(attr_total_size, AttrI total_size),
                (attr_device,
                 AttrI (scast (case pickDeviceType env (graph\<lparr>next_unique := Suc (next_unique graph)\<rparr>) of
                                 Some deviceType \<Rightarrow> deviceType
                               | None \<Rightarrow> kCPU env)))]\<rparr>,
      \<lparr>nodes =
         \<lparr>nid = next_unique graph, kind = prim_AllocateStorage, inputs = [],
          outputs = [\<lparr>unique = next_unique graph, v_type = unshaped_tensor,
                      v_node = next_unique graph\<rparr>],
          attrs = [(attr_total_size, AttrI total_size),
                   (attr_device,
                    AttrI (scast (case pickDeviceType env (graph\<lparr>next_unique := Suc (next_unique graph)\<rparr>) of
                                    Some deviceType \<Rightarrow> deviceType
                                  | None \<Rightarrow> kCPU env)))]\<rparr>
         # nodes graph,
       next_unique = Suc (next_unique graph)\<rparr>)"
  by (cases graph) (simp add: insertAllocStorageNode_def create_eq i_set_def Let_def split: option.splits)

lemma planMemory_allocations_known:
  assumes "strat \<in> {GREEDY_BY_SIZE, LINEAR_SCAN, GREEDY_BY_BREADTH}"
  shows "\<exists>allocations. planMemory_allocations env graph strat = Some allocations"
  using assms by (auto simp: planMemory_allocations_def split: prod.splits)

text \<open>
  Claim C5. With one of the three packing strategies, \<^verbatim>\<open>planMemory\<close> adds exactly one
  node of kind \<^verbatim>\<open>prim::AllocateStorage\<close> to the graph, whether or not the bindings that
  follow succeed. That node carries the total size computed from the plan and the
  device (the device type chosen for the graph, or the CPU if there is none). It is
  the first node of the resulting program, provided every planned value is produced
  by a node that existed before the pass (its number is below the counter for fresh
  objects).
\<close>

theorem planMemory_storage_node:
  assumes "strat \<in> {GREEDY_BY_SIZE, LINEAR_SCAN, GREEDY_BY_BREADTH}"
  shows "\<exists>allocations. planMemory_allocations env graph strat = Some allocations \<and>
    length (filter (\<lambda>n. kind n = prim_AllocateStorage) (nodes (fst (planMemory env graph strat))))
      = Suc (length (filter (\<lambda>n. kind n = prim_AllocateStorage) (nodes graph))) \<and>
    ((\<forall>a \<in> set allocations. v_node (fst a) < next_unique graph) \<longrightarrow>
      take (Suc 0) (nodes (fst (planMemory env graph strat))) =
       [\<lparr>nid = next_unique graph, kind = prim_AllocateStorage, inputs = [],
         outputs = [\<lparr>unique = next_unique graph, v_type = unshaped_tensor,
                     v_node = next_unique graph\<rparr>],
         attrs = [(attr_total_size, AttrI (getTotalAllocationSize allocations)),
                  (attr_device,
                   AttrI (scast (case pickDeviceType env (graph\<lparr>next_unique := Suc (next_unique graph)\<rparr>) of
                                   Some deviceType \<Rightarrow> deviceType
                                 | None \<Rightarrow> kCPU env)))]\<rparr>])"
proof -
  from planMemory_allocations_known[OF assms] obtain allocations where
    al: "planMemory_allocations env graph strat = Some allocations" by blast
  let ?total = "getTotalAllocationSize allocations"
  let ?st = "\<lparr>nid = next_unique graph, kind = prim_AllocateStorage, inputs = [],
         outputs = [\<lparr>unique = next_unique graph, v_type = unshaped_tensor,
                     v_node = next_unique graph\<rparr>],
         attrs = [(attr_total_size, AttrI ?total),
                  (attr_device,
                   AttrI (scast (case pickDeviceType env (graph\<lparr>next_unique := Suc (next_unique graph)\<rparr>) of
                                   Some deviceType \<Rightarrow> deviceType
                                 | None \<Rightarrow> kCPU env)))]\<rparr>"
  let ?g1 = "\<lparr>nodes = ?st # nodes graph, next_unique = Suc (next_unique graph)\<rparr>"
  have tot: "i_get ?st attr_total_size = Inr ?total"
    by (simp add: i_get_def)
  have pm: "planMemory env graph strat = insertAllocTensorNodes_loop ?st ?total ?g1 allocations"
    using al tot
    by (simp add: planMemory_def insertAllocStorageNode_eq insertAllocTensorNodes_def Let_def
        del: insertAllocTensorNodes_loop.simps)
  have cnt: "length (filter (\<lambda>n. kind n = prim_AllocateStorage) (nodes (fst (planMemory env graph strat))))
      = Suc (length (filter (\<lambda>n. kind n = prim_AllocateStorage) (nodes graph)))"
    unfolding pm by (subst loop_count_kind) simp_all
  have hd: "take (Suc 0) (nodes (fst (planMemory env graph strat))) = [?st]"
    if "\<forall>a \<in> set allocations. v_node (fst a) < next_unique graph"
    unfolding pm using that by (intro loop_head) auto
  from al cnt hd show ?thesis by blast
qed

theorem planMemory_storage_node_witness:
  "GREEDY_BY_SIZE \<in> {GREEDY_BY_SIZE, LINEAR_SCAN, GREEDY_BY_BREADTH} \<and>
   planMemory_allocations ex_env ex_graph GREEDY_BY_SIZE =
     Some [(ex_v1, \<lparr>offset = 0, size_reg = 24\<rparr>), (ex_v2, \<lparr>offset = 24, size_reg = 24\<rparr>)] \<and>
   v_node ex_v1 < next_unique ex_graph \<and> v_node ex_v2 < next_unique ex_graph \<and>
   length (filter (\<lambda>n. kind n = prim_AllocateStorage)
                  (nodes (fst (planMemory ex_env ex_graph GREEDY_BY_SIZE)))) = 1 \<and>
   take (Suc 0) (nodes (fst (planMemory ex_env ex_graph GREEDY_BY_SIZE))) =
     [\<lparr>nid = 6, kind = prim_AllocateStorage, inputs = [],
       outputs = [\<lparr>unique = 6, v_type = unshaped_tensor, v_node = 6\<rparr>],
       attrs = [(attr_total_size, AttrI 48), (attr_device, AttrI 0)]\<rparr>]"
proof -
  have s: "GREEDY_BY_SIZE \<in> {GREEDY_BY_SIZE, LINEAR_SCAN, GREEDY_BY_BREADTH}" by simp
  have al: "planMemory_allocations ex_env ex_graph GREEDY_BY_SIZE =
     Some [(ex_v1, \<lparr>offset = 0, size_reg = 24\<rparr>), (ex_v2, \<lparr>offset = 24, size_reg = 24\<rparr>)]"
    by code_simp
  have p: "v_node ex_v1 < next_unique ex_graph" "v_node ex_v2 < next_unique ex_graph"
    by (simp_all add: ex_v1_def ex_v2_def ex_graph_def)
  have c0: "length (filter (\<lambda>n. kind n = prim_AllocateStorage) (nodes ex_graph)) = 0"
    by code_simp
  have t: "getTotalAllocationSize
      [(ex_v1, \<lparr>offset = 0, size_reg = 24\<rparr>), (ex_v2, \<lparr>offset = 24, size_reg = 24\<rparr>)] = 48"
    by (simp add: getTotalAllocationSize_def)
  have d: "pickDeviceType ex_env (ex_graph\<lparr>next_unique := Suc (next_unique ex_graph)\<rparr>) = None"
    "kCPU ex_env = 0" "next_unique ex_graph = 6"
    by (simp_all add: ex_env_def ex_graph_def)
  from planMemory_storage_node[OF s, of ex_env ex_graph] al p c0 t d
  show ?thesis using s by simp
qed

section \<open>One successful round of the binding loop\<close>

lemma map_update_id:
  assumes "\<forall>n \<in> set ns. nid n \<noteq> i"
  shows "map (\<lambda>n. if nid n = i then f n else n) ns = ns"
  using assms by (induction ns) auto

lemma distinct_nid_split_unique:
  assumes "distinct (map nid (xs @ y # ys))" "xs @ y # ys = xs' @ y' # ys'" "nid y = nid y'"
  shows "xs = xs' \<and> y = y' \<and> ys = ys'"
  using assms
proof (induction xs arbitrary: xs')
  case Nil
  show ?case
  proof (cases xs')
    case Nil
    with Nil.prems show ?thesis by simp
  next
    case (Cons z zs)
    with Nil.prems have "y = z" "ys = zs @ y' # ys'" by simp_all
    with Nil.prems(1,3) show ?thesis by auto
  qed
next
  case (Cons x xs)
  show ?case
  proof (cases xs')
    case Nil
    with Cons.prems have "x = y'" "xs @ y # ys = ys'" by simp_all
    with Cons.prems(1,3) show ?thesis by auto
  next
    case (Cons z zs)
    with Cons.prems have e: "x = z" "xs @ y # ys = zs @ y' # ys'" by simp_all
    from Cons.prems(1) have "distinct (map nid (xs @ y # ys))" by simp
    from Cons.IH[OF this e(2) Cons.prems(3)] e(1) Cons show ?thesis by simp
  qed
qed

lemma output_of_single [simp]:
  "output_of \<lparr>nid = k, kind = K, inputs = ins, outputs = [x], attrs = ats\<rparr> = Inr x"
  by (simp add: output_of_def)

lemma body_success:
  assumes res: "insertAllocTensorNodes_body storage total_size g (v, region) = (g', None)"
    and dist: "distinct (map nid (nodes g))"
    and bound: "\<forall>n \<in> set (nodes g). nid n < next_unique g"
  shows "\<exists>storage_out d ttp st pre p post.
      output_of storage = Inr storage_out \<and> i_get storage attr_device = Inr d \<and>
      v_type v = TensorT ttp \<and> scalarType ttp = Some st \<and>
      offset region + size_reg region \<le> total_size \<and>
      nodes g = pre @ p # post \<and> nid p = v_node v \<and>
      nodes g' = pre @ binding_directive (next_unique g) storage_out d region ttp st
                   # addInput (fresh_output (next_unique g)) p # post \<and>
      next_unique g' = Suc (next_unique g)"
proof -
  let ?k = "next_unique g"
  let ?out = "\<lparr>unique = ?k, v_type = unshaped_tensor, v_node = ?k\<rparr>"
  let ?alloc = "\<lparr>nid = ?k, kind = prim_AllocateTensor, inputs = [],
       outputs = [?out], attrs = []\<rparr>"
  let ?u = "\<lambda>n. if nid n = v_node v then addInput ?out n else n"
  let ?g2 = "update_node (v_node v) (addInput ?out) (g\<lparr>next_unique := Suc ?k\<rparr>)"
  note unfold = insertAllocTensorNodes_body_def create_eq Let_def case_prod_beta
  obtain g3 where g3: "insertBefore ?alloc (v_node v) ?g2 = Some g3"
  proof (cases "insertBefore ?alloc (v_node v) ?g2")
    case None
    with res show ?thesis by (simp add: unfold del: update_node_fields)
  next
    case (Some g3)
    with that show ?thesis .
  qed
  obtain storage_out where so: "output_of storage = Inr storage_out"
  proof (cases "output_of storage")
    case (Inl e)
    with res g3 show ?thesis by (simp add: unfold del: update_node_fields)
  next
    case (Inr x)
    with that show ?thesis .
  qed
  obtain ttp where ttp: "v_type v = TensorT ttp"
  proof (cases "v_type v")
    case (OtherT x)
    with res g3 so show ?thesis by (simp add: unfold del: update_node_fields)
  next
    case (TensorT x)
    with that show ?thesis .
  qed
  have chk: "offset region + size_reg region \<le> total_size"
  proof (rule ccontr)
    assume "\<not> ?thesis"
    with res g3 so ttp show False by (simp add: unfold del: update_node_fields)
  qed
  obtain d where d: "i_get storage attr_device = Inr d"
  proof (cases "i_get storage attr_device")
    case (Inl e)
    with res g3 so ttp chk show ?thesis by (simp add: unfold del: update_node_fields)
  next
    case (Inr x)
    with that show ?thesis .
  qed
  obtain st where st: "scalarType ttp = Some st"
  proof (cases "scalarType ttp")
    case None
    with res g3 so ttp chk d show ?thesis by (simp add: unfold del: update_node_fields)
  next
    case (Some x)
    with that show ?thesis .
  qed
  let ?F = "\<lambda>n. i_set attr_dtype (scast st)
             (i_set attr_device (scast (ucast d :: int8))
               (is_set attr_stride (snd (getSizesStrides ttp))
                 (is_set attr_sizes (fst (getSizesStrides ttp))
                   (i_set attr_offset (offset region)
                     (i_set attr_size (size_reg region)
                       (addInput storage_out n))))))"
  from res g3 so ttp chk d st
  have g': "g' = update_node ?k (i_set attr_dtype (scast st))
             (update_node ?k (i_set attr_device (scast (ucast d :: int8)))
               (update_node ?k (is_set attr_stride (snd (getSizesStrides ttp)))
                 (update_node ?k (is_set attr_sizes (fst (getSizesStrides ttp)))
                   (update_node ?k (i_set attr_offset (offset region))
                     (update_node ?k (i_set attr_size (size_reg region))
                       (update_node ?k (addInput storage_out) g3))))))"
    by (simp add: unfold del: update_node_fields)
  have nodes': "nodes g' = map (\<lambda>n. if nid n = ?k then ?F n else n) (nodes g3)"
    unfolding g' by (simp add: comp_def cong: if_cong)
  from insertBefore_Some[OF g3] obtain pre2 p2 post2 where
    n2: "nodes ?g2 = pre2 @ p2 # post2" and n3: "nodes g3 = pre2 @ ?alloc # p2 # post2"
    and p2: "nid p2 = v_node v" and u3: "next_unique g3 = Suc ?k"
    by auto
  from n2 have "map ?u (nodes g) = pre2 @ p2 # post2" by simp
  then obtain pre p post where
    dd: "nodes g = pre @ p # post" "pre2 = map ?u pre" "p2 = ?u p" "post2 = map ?u post"
    by (auto simp: map_eq_append_conv map_eq_Cons_conv)
  from p2 dd(3) have pid: "nid p = v_node v" by (simp split: if_splits)
  from dist dd(1) pid have "v_node v \<notin> nid ` set pre" "v_node v \<notin> nid ` set post"
    by auto
  then have others: "\<forall>n \<in> set pre. nid n \<noteq> v_node v" "\<forall>n \<in> set post. nid n \<noteq> v_node v"
    by (auto simp: image_iff)
  from others dd pid have e2: "pre2 = pre" "post2 = post" "p2 = addInput ?out p"
    by (simp_all add: map_update_id)
  from bound dd(1) have below: "\<forall>n \<in> set pre. nid n < ?k" "\<forall>n \<in> set post. nid n < ?k"
    "nid p < ?k"
    by simp_all
  have fresh: "\<forall>n \<in> set pre. nid n \<noteq> ?k" "\<forall>n \<in> set post. nid n \<noteq> ?k"
    "nid p \<noteq> ?k"
  proof -
    show "\<forall>n \<in> set pre. nid n \<noteq> ?k"
    proof
      fix n assume "n \<in> set pre"
      with below(1) have "nid n < ?k" by blast
      then show "nid n \<noteq> ?k" by simp
    qed
    show "\<forall>n \<in> set post. nid n \<noteq> ?k"
    proof
      fix n assume "n \<in> set post"
      with below(2) have "nid n < ?k" by blast
      then show "nid n \<noteq> ?k" by simp
    qed
    from below(3) show "nid p \<noteq> ?k" by simp
  qed
  have "?F ?alloc = binding_directive ?k storage_out d region ttp st"
    by (simp add: binding_directive_def fresh_output_def i_set_def is_set_def addInput_def)
  with nodes' n3 e2 fresh
  have final: "nodes g' = pre @ binding_directive ?k storage_out d region ttp st
                   # addInput (fresh_output ?k) p # post"
    by (simp add: map_update_id fresh_output_def)
  have nu: "next_unique g' = Suc ?k"
    unfolding g' using u3 by simp
  from so d ttp st chk dd(1) pid final nu show ?thesis by blast
qed

lemma binding_directive_fields [simp]:
  "nid (binding_directive k so d region ttp st) = k"
  "kind (binding_directive k so d region ttp st) = prim_AllocateTensor"
  by (simp_all add: binding_directive_def)

lemma body_success_wf:
  assumes res: "insertAllocTensorNodes_body storage total_size g a = (g', None)"
    and dist: "distinct (map nid (nodes g))"
    and bound: "\<forall>n \<in> set (nodes g). nid n < next_unique g"
  shows "distinct (map nid (nodes g')) \<and> (\<forall>n \<in> set (nodes g'). nid n < next_unique g') \<and>
         next_unique g' = Suc (next_unique g) \<and> length (nodes g') = Suc (length (nodes g))"
proof -
  obtain v region where a: "a = (v, region)" by (cases a)
  from body_success[OF res[unfolded a] dist bound] obtain so d ttp st pre p post where
    n: "nodes g = pre @ p # post"
    and n': "nodes g' = pre @ binding_directive (next_unique g) so d region ttp st
                   # addInput (fresh_output (next_unique g)) p # post"
    and u: "next_unique g' = Suc (next_unique g)"
    by blast
  from bound n have "next_unique g \<notin> nid ` set (nodes g)" by auto
  with dist n n' have "distinct (map nid (nodes g'))" by auto
  moreover from bound n n' u have "\<forall>n \<in> set (nodes g'). nid n < next_unique g'"
    by (auto simp: less_Suc_eq)
  moreover from n n' have "length (nodes g') = Suc (length (nodes g))" by simp
  ultimately show ?thesis using u by blast
qed

lemma loop_Cons_success:
  assumes "insertAllocTensorNodes_loop storage total_size g (a # rest) = (g', None)"
  shows "\<exists>g1. insertAllocTensorNodes_body storage total_size g a = (g1, None) \<and>
               insertAllocTensorNodes_loop storage total_size g1 rest = (g', None)"
proof -
  obtain g1 e where b: "insertAllocTensorNodes_body storage total_size g a = (g1, e)"
    by (cases "insertAllocTensorNodes_body storage total_size g a")
  with assms show ?thesis by (cases e) simp_all
qed

lemma loop_append_success:
  assumes "insertAllocTensorNodes_loop storage total_size g (xs @ ys) = (g', None)"
  shows "\<exists>g1. insertAllocTensorNodes_loop storage total_size g xs = (g1, None) \<and>
               insertAllocTensorNodes_loop storage total_size g1 ys = (g', None)"
  using assms
proof (induction xs arbitrary: g)
  case Nil
  then show ?case by simp
next
  case (Cons a xs)
  from Cons.prems have "insertAllocTensorNodes_loop storage total_size g (a # (xs @ ys)) = (g', None)"
    by simp
  from loop_Cons_success[OF this] obtain g0 where
    b: "insertAllocTensorNodes_body storage total_size g a = (g0, None)"
    and l: "insertAllocTensorNodes_loop storage total_size g0 (xs @ ys) = (g', None)"
    by blast
  from Cons.IH[OF l] obtain g1 where
    "insertAllocTensorNodes_loop storage total_size g0 xs = (g1, None)"
    "insertAllocTensorNodes_loop storage total_size g1 ys = (g', None)"
    by blast
  with b show ?case by simp
qed

lemma loop_success_wf:
  assumes "insertAllocTensorNodes_loop storage total_size g allocations = (g', None)"
    and "distinct (map nid (nodes g))"
    and "\<forall>n \<in> set (nodes g). nid n < next_unique g"
  shows "distinct (map nid (nodes g')) \<and> (\<forall>n \<in> set (nodes g'). nid n < next_unique g') \<and>
         next_unique g' = next_unique g + length allocations \<and>
         length (nodes g') = length (nodes g) + length allocations"
  using assms
proof (induction allocations arbitrary: g)
  case Nil
  then show ?case by simp
next
  case (Cons a rest)
  from loop_Cons_success[OF Cons.prems(1)] obtain g1 where
    b: "insertAllocTensorNodes_body storage total_size g a = (g1, None)"
    and l: "insertAllocTensorNodes_loop storage total_size g1 rest = (g', None)"
    by blast
  from body_success_wf[OF b Cons.prems(2,3)] have
    w: "distinct (map nid (nodes g1))" "\<forall>n \<in> set (nodes g1). nid n < next_unique g1"
    and u: "next_unique g1 = Suc (next_unique g)" "length (nodes g1) = Suc (length (nodes g))"
    by blast+
  from Cons.IH[OF l w] have i: "distinct (map nid (nodes g'))"
    "\<forall>n \<in> set (nodes g'). nid n < next_unique g'"
    "next_unique g' = next_unique g1 + length rest"
    "length (nodes g') = length (nodes g1) + length rest"
    by blast+
  from i(3) u(1) have "next_unique g' = next_unique g + length (a # rest)" by simp
  moreover from i(4) u(2) have "length (nodes g') = length (nodes g) + length (a # rest)" by simp
  ultimately show ?case using i(1,2) by blast
qed

lemma body_original_nodes:
  assumes res: "insertAllocTensorNodes_body storage total_size g a = (g', None)"
    and dist: "distinct (map nid (nodes g))"
    and bound: "\<forall>n \<in> set (nodes g). nid n < next_unique g"
    and n': "n' \<in> set (nodes g')" "nid n' < next_unique g"
  shows "\<exists>n \<in> set (nodes g). \<exists>extra. n' = n\<lparr>inputs := inputs n @ extra\<rparr>"
proof -
  obtain v region where a: "a = (v, region)" by (cases a)
  from body_success[OF res[unfolded a] dist bound] obtain so d ttp st pre p post where
    n: "nodes g = pre @ p # post"
    and ns': "nodes g' = pre @ binding_directive (next_unique g) so d region ttp st
                   # addInput (fresh_output (next_unique g)) p # post"
    by blast
  from n'(2) have "n' \<noteq> binding_directive (next_unique g) so d region ttp st" by auto
  with n'(1) ns' consider "n' \<in> set pre \<union> set post" | "n' = addInput (fresh_output (next_unique g)) p"
    by auto
  then show ?thesis
  proof cases
    case 1
    with n have "n' \<in> set (nodes g)" by auto
    moreover have "n' = n'\<lparr>inputs := inputs n' @ []\<rparr>" by simp
    ultimately show ?thesis by blast
  next
    case 2
    then have "n' = p\<lparr>inputs := inputs p @ [fresh_output (next_unique g)]\<rparr>"
      by (simp add: addInput_def)
    moreover from n have "p \<in> set (nodes g)" by simp
    ultimately show ?thesis by blast
  qed
qed

lemma loop_original_nodes:
  assumes "insertAllocTensorNodes_loop storage total_size g allocations = (g', None)"
    and "distinct (map nid (nodes g))"
    and "\<forall>n \<in> set (nodes g). nid n < next_unique g"
    and "n' \<in> set (nodes g')" "nid n' < next_unique g"
  shows "\<exists>n \<in> set (nodes g). \<exists>extra. n' = n\<lparr>inputs := inputs n @ extra\<rparr>"
  using assms
proof (induction allocations arbitrary: g)
  case Nil
  then have "n' \<in> set (nodes g)" by simp
  moreover have "n' = n'\<lparr>inputs := inputs n' @ []\<rparr>" by simp
  ultimately show ?case by blast
next
  case (Cons a rest)
  from loop_Cons_success[OF Cons.prems(1)] obtain g1 where
    b: "insertAllocTensorNodes_body storage total_size g a = (g1, None)"
    and l: "insertAllocTensorNodes_loop storage total_size g1 rest = (g', None)"
    by blast
  from body_success_wf[OF b Cons.prems(2,3)] have
    w: "distinct (map nid (nodes g1))" "\<forall>n \<in> set (nodes g1). nid n < next_unique g1"
    and u: "next_unique g1 = Suc (next_unique g)"
    by blast+
  from Cons.prems(5) u have "nid n' < next_unique g1" by simp
  from Cons.IH[OF l w Cons.prems(4) this] obtain n1 e1 where
    n1: "n1 \<in> set (nodes g1)" "n' = n1\<lparr>inputs := inputs n1 @ e1\<rparr>" by blast
  from n1(2) Cons.prems(5) have "nid n1 < next_unique g" by simp
  from body_original_nodes[OF b Cons.prems(2,3) n1(1) this] obtain n e where
    n: "n \<in> set (nodes g)" "n1 = n\<lparr>inputs := inputs n @ e\<rparr>" by blast
  from n1(2) n(2) have "n' = n\<lparr>inputs := inputs n @ (e @ e1)\<rparr>" by simp
  with n(1) show ?case by blast
qed

lemma body_keeps_binding:
  assumes res: "insertAllocTensorNodes_body storage total_size g a = (g1, None)"
    and dist: "distinct (map nid (nodes g))"
    and bound: "\<forall>n \<in> set (nodes g). nid n < next_unique g"
    and shape: "nodes g = pre @ A # mid @ p # post"
    and prod: "v_node (fst a) < K" and A: "K \<le> nid A" and midK: "\<forall>m \<in> set mid. K \<le> nid m"
  shows "\<exists>pre' mid' p' post'. nodes g1 = pre' @ A # mid' @ p' # post' \<and>
          (\<exists>extra. p' = p\<lparr>inputs := inputs p @ extra\<rparr>) \<and>
          (mid' = mid \<or>
           (v_node (fst a) = nid p \<and>
            (\<exists>B. mid' = mid @ [B] \<and> kind B = prim_AllocateTensor \<and> nid B = next_unique g)))"
proof -
  obtain v region where a: "a = (v, region)" by (cases a)
  from body_success[OF res[unfolded a] dist bound] obtain so d ttp st pre2 q post2 where
    n: "nodes g = pre2 @ q # post2" and q: "nid q = v_node v"
    and n1: "nodes g1 = pre2 @ binding_directive (next_unique g) so d region ttp st
                   # addInput (fresh_output (next_unique g)) q # post2"
    by blast
  let ?B = "binding_directive (next_unique g) so d region ttp st"
  let ?q' = "addInput (fresh_output (next_unique g)) q"
  from n have dq: "distinct (map nid (pre2 @ q # post2))" using dist by simp
  from prod a q have qK: "nid q < K" by simp
  with A have "q \<noteq> A" by auto
  moreover from qK midK have "q \<notin> set mid" by auto
  moreover from n shape have "q \<in> set (pre @ A # mid @ p # post)" by (metis in_set_conv_decomp)
  ultimately consider "q \<in> set pre" | "q = p" | "q \<in> set post" by auto
  then show ?thesis
  proof cases
    case 1
    then obtain l1 l2 where l: "pre = l1 @ q # l2" by (auto simp: in_set_conv_decomp)
    with shape n have "pre2 @ q # post2 = l1 @ q # (l2 @ A # mid @ p # post)" by simp
    from distinct_nid_split_unique[OF dq this refl]
    have "pre2 = l1" "post2 = l2 @ A # mid @ p # post" by simp_all
    with n1 have "nodes g1 = (l1 @ ?B # ?q' # l2) @ A # mid @ p # post" by simp
    moreover have "p = p\<lparr>inputs := inputs p @ []\<rparr>" by simp
    ultimately show ?thesis by blast
  next
    case 2
    with shape n have "pre2 @ q # post2 = (pre @ A # mid) @ q # post" by simp
    from distinct_nid_split_unique[OF dq this refl]
    have "pre2 = pre @ A # mid" "post2 = post" by simp_all
    with n1 have "nodes g1 = pre @ A # (mid @ [?B]) @ ?q' # post" by simp
    moreover from 2 have "?q' = p\<lparr>inputs := inputs p @ [fresh_output (next_unique g)]\<rparr>"
      by (simp add: addInput_def)
    moreover from 2 q a have "v_node (fst a) = nid p" by simp
    moreover have "kind ?B = prim_AllocateTensor" "nid ?B = next_unique g" by simp_all
    ultimately show ?thesis by blast
  next
    case 3
    then obtain l1 l2 where l: "post = l1 @ q # l2" by (auto simp: in_set_conv_decomp)
    with shape n have "pre2 @ q # post2 = (pre @ A # mid @ p # l1) @ q # l2" by simp
    from distinct_nid_split_unique[OF dq this refl]
    have "pre2 = pre @ A # mid @ p # l1" "post2 = l2" by simp_all
    with n1 have "nodes g1 = pre @ A # mid @ p # (l1 @ ?B # ?q' # l2)" by simp
    moreover have "p = p\<lparr>inputs := inputs p @ []\<rparr>" by simp
    ultimately show ?thesis by blast
  qed
qed

lemma loop_keeps_binding:
  assumes "insertAllocTensorNodes_loop storage total_size g allocations = (g', None)"
    and "distinct (map nid (nodes g))"
    and "\<forall>n \<in> set (nodes g). nid n < next_unique g"
    and "nodes g = pre @ A # mid @ p # post"
    and "\<forall>a \<in> set allocations. v_node (fst a) < K" and "K \<le> nid A"
    and "\<forall>m \<in> set mid. K \<le> nid m" and "K \<le> next_unique g"
  shows "\<exists>pre' new p' post'. nodes g' = pre' @ A # (mid @ new) @ p' # post' \<and>
          (\<exists>extra. p' = p\<lparr>inputs := inputs p @ extra\<rparr>) \<and>
          (\<forall>m \<in> set new. kind m = prim_AllocateTensor \<and>
             (\<exists>j < length allocations. nid m = next_unique g + j \<and>
                v_node (fst (allocations ! j)) = nid p))"
  using assms
proof (induction allocations arbitrary: g pre mid p post)
  case Nil
  then have "nodes g' = pre @ A # (mid @ []) @ p # post" by simp
  moreover have "p = p\<lparr>inputs := inputs p @ []\<rparr>" by simp
  ultimately show ?case by (metis empty_iff empty_set)
next
  case (Cons a rest)
  from loop_Cons_success[OF Cons.prems(1)] obtain g1 where
    b: "insertAllocTensorNodes_body storage total_size g a = (g1, None)"
    and l: "insertAllocTensorNodes_loop storage total_size g1 rest = (g', None)"
    by blast
  from body_success_wf[OF b Cons.prems(2,3)] have
    w: "distinct (map nid (nodes g1))" "\<forall>n \<in> set (nodes g1). nid n < next_unique g1"
    and u: "next_unique g1 = Suc (next_unique g)"
    by blast+
  from Cons.prems(5) have pa: "v_node (fst a) < K" and pr: "\<forall>a \<in> set rest. v_node (fst a) < K"
    by simp_all
  from body_keeps_binding[OF b Cons.prems(2,3,4) pa Cons.prems(6,7)]
  obtain pre1 mid1 p1 post1 e1 where
    s1: "nodes g1 = pre1 @ A # mid1 @ p1 # post1"
    and p1: "p1 = p\<lparr>inputs := inputs p @ e1\<rparr>"
    and m1: "mid1 = mid \<or>
           (v_node (fst a) = nid p \<and>
            (\<exists>B. mid1 = mid @ [B] \<and> kind B = prim_AllocateTensor \<and> nid B = next_unique g))"
    by blast
  from m1 Cons.prems(7,8) have mk: "\<forall>m \<in> set mid1. K \<le> nid m" by auto
  from u Cons.prems(8) have ku: "K \<le> next_unique g1" by simp
  from Cons.IH[OF l w s1 pr Cons.prems(6) mk ku]
  obtain pre' new p' post' e2 where
    s': "nodes g' = pre' @ A # (mid1 @ new) @ p' # post'"
    and p': "p' = p1\<lparr>inputs := inputs p1 @ e2\<rparr>"
    and new: "\<forall>m \<in> set new. kind m = prim_AllocateTensor \<and>
             (\<exists>j < length rest. nid m = next_unique g1 + j \<and>
                v_node (fst (rest ! j)) = nid p1)"
    by blast
  from p1 p' have pp: "p' = p\<lparr>inputs := inputs p @ (e1 @ e2)\<rparr>" by simp
  have new': "\<forall>m \<in> set new. kind m = prim_AllocateTensor \<and>
             (\<exists>j < length (a # rest). nid m = next_unique g + j \<and>
                v_node (fst ((a # rest) ! j)) = nid p)"
  proof
    fix m assume "m \<in> set new"
    with new obtain j where j: "kind m = prim_AllocateTensor" "j < length rest"
      "nid m = next_unique g1 + j" "v_node (fst (rest ! j)) = nid p1" by blast
    from j(2) have "Suc j < length (a # rest)" by simp
    moreover from j(3) u have "nid m = next_unique g + Suc j" by simp
    moreover from j(4) p1 have "v_node (fst ((a # rest) ! Suc j)) = nid p" by simp
    ultimately show "kind m = prim_AllocateTensor \<and>
             (\<exists>j < length (a # rest). nid m = next_unique g + j \<and>
                v_node (fst ((a # rest) ! j)) = nid p)"
      using j(1) by blast
  qed
  from m1 show ?case
  proof
    assume "mid1 = mid"
    with s' pp new' show ?thesis by blast
  next
    assume "v_node (fst a) = nid p \<and>
            (\<exists>B. mid1 = mid @ [B] \<and> kind B = prim_AllocateTensor \<and> nid B = next_unique g)"
    then obtain B where B: "v_node (fst a) = nid p" "mid1 = mid @ [B]"
      "kind B = prim_AllocateTensor" "nid B = next_unique g" by blast
    from s' B(2) have "nodes g' = pre' @ A # (mid @ (B # new)) @ p' # post'" by simp
    moreover have "\<forall>m \<in> set (B # new). kind m = prim_AllocateTensor \<and>
             (\<exists>j < length (a # rest). nid m = next_unique g + j \<and>
                v_node (fst ((a # rest) ! j)) = nid p)"
    proof
      fix m assume "m \<in> set (B # new)"
      then consider "m = B" | "m \<in> set new" by auto
      then show "kind m = prim_AllocateTensor \<and>
             (\<exists>j < length (a # rest). nid m = next_unique g + j \<and>
                v_node (fst ((a # rest) ! j)) = nid p)"
      proof cases
        case 1
        have "0 < length (a # rest)" by simp
        moreover from 1 B have "nid m = next_unique g + 0" "v_node (fst ((a # rest) ! 0)) = nid p"
          by simp_all
        ultimately show ?thesis using 1 B(3) by blast
      next
        case 2
        with new' show ?thesis by blast
      qed
    qed
    ultimately show ?thesis using pp by blast
  qed
qed

section \<open>Every planned value gets its binding\<close>

text \<open>
  Claim C6, as it is stated, at a concrete input. The node \<open>0\<close> produces two tensors
  and the plan has a region for each. Plan application succeeds and leaves the nodes
  \<open>3, 4, 5, 0\<close>: the arena node, the binding of the first value (offset 0), the
  binding of the second value (offset 24), the producer. What stands immediately
  before the producer is the binding of the second value; the binding of the first
  value is followed by another binding, not by the producer of its value.
\<close>

theorem first_binding_not_adjacent:
  "snd (insertAllocTensorNodes ex_two1 ex_two_storage ex_two_plan) = None \<and>
   map nid (nodes (fst (insertAllocTensorNodes ex_two1 ex_two_storage ex_two_plan))) = [3, 4, 5, 0] \<and>
   v_node ex_a = 0 \<and> v_node ex_b = 0 \<and>
   nodes (fst (insertAllocTensorNodes ex_two1 ex_two_storage ex_two_plan)) ! 1 =
     binding_directive 4 (fresh_output 3) 0 \<lparr>offset = 0, size_reg = 24\<rparr> ex_float23 6 \<and>
   nodes (fst (insertAllocTensorNodes ex_two1 ex_two_storage ex_two_plan)) ! 2 =
     binding_directive 5 (fresh_output 3) 0 \<lparr>offset = 24, size_reg = 24\<rparr> ex_float23 6 \<and>
   inputs (nodes (fst (insertAllocTensorNodes ex_two1 ex_two_storage ex_two_plan)) ! 3) =
     [fresh_output 4, fresh_output 5]"
proof -
  have 1: "snd (insertAllocTensorNodes ex_two1 ex_two_storage ex_two_plan) = None"
    by code_simp
  have 2: "map nid (nodes (fst (insertAllocTensorNodes ex_two1 ex_two_storage ex_two_plan))) = [3, 4, 5, 0]"
    by code_simp
  have 3: "v_node ex_a = 0" "v_node ex_b = 0"
    by (simp_all add: ex_a_def ex_b_def)
  have 4: "nodes (fst (insertAllocTensorNodes ex_two1 ex_two_storage ex_two_plan)) ! 1 =
     binding_directive 4 (fresh_output 3) 0 \<lparr>offset = 0, size_reg = 24\<rparr> ex_float23 6"
    by code_simp
  have 5: "nodes (fst (insertAllocTensorNodes ex_two1 ex_two_storage ex_two_plan)) ! 2 =
     binding_directive 5 (fresh_output 3) 0 \<lparr>offset = 24, size_reg = 24\<rparr> ex_float23 6"
    by code_simp
  have 6: "inputs (nodes (fst (insertAllocTensorNodes ex_two1 ex_two_storage ex_two_plan)) ! 3) =
     [fresh_output 4, fresh_output 5]"
    by code_simp
  from 1 2 3 4 5 6 show ?thesis by blast
qed

text \<open>
  Claim C6, amended. Let the graph be well formed (the nodes have pairwise distinct
  identities, all below the counter for fresh objects), let every planned value be
  produced by a node that existed before, and let plan application end without an
  error. Then for the entry number \<open>i\<close> of the plan, with value \<open>v\<close> and region
  \<open>region\<close>, the resulting program contains the binding directive created as
  object number \<open>next_unique graph + i\<close>: it carries the region's size and offset,
  the extents and strides that \<^verbatim>\<open>getSizesStrides\<close> gives for the type of \<open>v\<close>, the device
  of the arena node and the element type of \<open>v\<close>, and its input is the output of the
  arena node. It stands before the producing node of \<open>v\<close>, separated from it only by
  binding directives of later plan entries with the same producing node (so it stands
  immediately before the producer when no later entry shares the producer). The
  producing node is the original one with additional inputs, among them the output
  of the binding. Identities stay pairwise distinct and the program grows by exactly
  one node per plan entry, so each entry has exactly one binding.
\<close>

theorem binding_inserted_before_producer:
  assumes "distinct (map nid (nodes graph))"
    and "\<forall>n \<in> set (nodes graph). nid n < next_unique graph"
    and "\<forall>a \<in> set allocations. v_node (fst a) < next_unique graph"
    and "insertAllocTensorNodes graph storage allocations = (graph', None)"
    and "i < length allocations" and "allocations ! i = (v, region)"
  shows "\<exists>storage_out d ttp st pre mid p0 extra post.
      output_of storage = Inr storage_out \<and> i_get storage attr_device = Inr d \<and>
      v_type v = TensorT ttp \<and> scalarType ttp = Some st \<and>
      p0 \<in> set (nodes graph) \<and> nid p0 = v_node v \<and>
      nodes graph' =
        pre @ binding_directive (next_unique graph + i) storage_out d region ttp st
          # mid @ p0\<lparr>inputs := inputs p0 @ extra\<rparr> # post \<and>
      fresh_output (next_unique graph + i) \<in> set extra \<and>
      (\<forall>m \<in> set mid. kind m = prim_AllocateTensor \<and>
         (\<exists>j. i < j \<and> j < length allocations \<and> nid m = next_unique graph + j \<and>
              v_node (fst (allocations ! j)) = v_node v)) \<and>
      distinct (map nid (nodes graph')) \<and>
      length (nodes graph') = length (nodes graph) + length allocations"
proof -
  let ?K = "next_unique graph"
  obtain total_size where
    loop: "insertAllocTensorNodes_loop storage total_size graph allocations = (graph', None)"
    using assms(4)
    by (cases "i_get storage attr_total_size") (simp_all add: insertAllocTensorNodes_def)
  define as1 as2 where "as1 = take i allocations" and "as2 = drop (Suc i) allocations"
  from id_take_nth_drop[OF assms(5)] assms(6)
  have al: "allocations = as1 @ (v, region) # as2"
    unfolding as1_def as2_def by simp
  from assms(5) have len1: "length as1 = i"
    by (simp add: as1_def)
  from loop al have "insertAllocTensorNodes_loop storage total_size graph (as1 @ (v, region) # as2) = (graph', None)"
    by simp
  from loop_append_success[OF this] obtain g1 where
    l1: "insertAllocTensorNodes_loop storage total_size graph as1 = (g1, None)"
    and l2: "insertAllocTensorNodes_loop storage total_size g1 ((v, region) # as2) = (graph', None)"
    by blast
  from loop_Cons_success[OF l2] obtain g2 where
    b: "insertAllocTensorNodes_body storage total_size g1 (v, region) = (g2, None)"
    and l3: "insertAllocTensorNodes_loop storage total_size g2 as2 = (graph', None)"
    by blast
  from loop_success_wf[OF l1 assms(1,2)] have
    w1: "distinct (map nid (nodes g1))" "\<forall>n \<in> set (nodes g1). nid n < next_unique g1"
    and u1': "next_unique g1 = ?K + length as1"
    by blast+
  from u1' len1 have u1: "next_unique g1 = ?K + i" by simp
  from body_success[OF b w1] u1 obtain storage_out d ttp st pre p post where
    so: "output_of storage = Inr storage_out" and d: "i_get storage attr_device = Inr d"
    and ttp: "v_type v = TensorT ttp" and st: "scalarType ttp = Some st"
    and n1: "nodes g1 = pre @ p # post" and pid: "nid p = v_node v"
    and n2: "nodes g2 = pre @ binding_directive (?K + i) storage_out d region ttp st
                   # [] @ addInput (fresh_output (?K + i)) p # post"
    and u2: "next_unique g2 = Suc (?K + i)"
    by auto
  let ?A = "binding_directive (?K + i) storage_out d region ttp st"
  from body_success_wf[OF b w1] have
    w2: "distinct (map nid (nodes g2))" "\<forall>n \<in> set (nodes g2). nid n < next_unique g2"
    by blast+
  from assms(3) al have pv: "v_node v < ?K" and p2: "\<forall>a \<in> set as2. v_node (fst a) < ?K"
    by simp_all
  have kA: "?K \<le> nid ?A" by simp
  have kmid: "\<forall>m \<in> set ([] :: Node list). ?K \<le> nid m" by simp
  from u2 have ku: "?K \<le> next_unique g2" by simp
  from loop_keeps_binding[OF l3 w2 n2 p2 kA kmid ku] obtain pre' new p' post' e2 where
    s': "nodes graph' = pre' @ ?A # ([] @ new) @ p' # post'"
    and p': "p' = (addInput (fresh_output (?K + i)) p)\<lparr>inputs :=
               inputs (addInput (fresh_output (?K + i)) p) @ e2\<rparr>"
    and new: "\<forall>m \<in> set new. kind m = prim_AllocateTensor \<and>
             (\<exists>j < length as2. nid m = next_unique g2 + j \<and>
                v_node (fst (as2 ! j)) = nid (addInput (fresh_output (?K + i)) p))"
    by blast
  from n1 have "p \<in> set (nodes g1)" by simp
  moreover from pid pv have "nid p < ?K" by simp
  ultimately obtain p0 e0 where
    p0: "p0 \<in> set (nodes graph)" "p = p0\<lparr>inputs := inputs p0 @ e0\<rparr>"
    using loop_original_nodes[OF l1 assms(1,2)] by blast
  from p' p0(2) have pp: "p' = p0\<lparr>inputs := inputs p0 @ (e0 @ fresh_output (?K + i) # e2)\<rparr>"
    by (simp add: addInput_def)
  from p0(2) pid have p0id: "nid p0 = v_node v" by simp
  have mid: "\<forall>m \<in> set new. kind m = prim_AllocateTensor \<and>
         (\<exists>j. i < j \<and> j < length allocations \<and> nid m = ?K + j \<and>
              v_node (fst (allocations ! j)) = v_node v)"
  proof
    fix m assume "m \<in> set new"
    with new obtain j where j: "kind m = prim_AllocateTensor" "j < length as2"
      "nid m = next_unique g2 + j"
      "v_node (fst (as2 ! j)) = nid (addInput (fresh_output (?K + i)) p)"
      by blast
    have "i < Suc (i + j)" by simp
    moreover from j(2) al len1 have "Suc (i + j) < length allocations" by simp
    moreover from j(3) u2 have "nid m = ?K + Suc (i + j)" by simp
    moreover from al len1 have "allocations ! Suc (i + j) = as2 ! j"
      by (simp add: nth_append)
    with j(4) pid have "v_node (fst (allocations ! Suc (i + j))) = v_node v" by simp
    ultimately show "kind m = prim_AllocateTensor \<and>
         (\<exists>j. i < j \<and> j < length allocations \<and> nid m = ?K + j \<and>
              v_node (fst (allocations ! j)) = v_node v)"
      using j(1) by blast
  qed
  from loop_success_wf[OF loop assms(1,2)] have
    fin: "distinct (map nid (nodes graph'))"
      "length (nodes graph') = length (nodes graph) + length allocations"
    by blast+
  from s' pp have shape: "nodes graph' =
        pre' @ ?A # new @ p0\<lparr>inputs := inputs p0 @ (e0 @ fresh_output (?K + i) # e2)\<rparr> # post'"
    by simp
  have mem: "fresh_output (?K + i) \<in> set (e0 @ fresh_output (?K + i) # e2)" by simp
  from so d ttp st p0(1) p0id shape mem mid fin show ?thesis by blast
qed

theorem binding_inserted_before_producer_witness:
  "map nid (nodes ex_two1) = [3, 0] \<and> next_unique ex_two1 = 4 \<and>
   map (v_node \<circ> fst) ex_two_plan = [0, 0] \<and>
   snd (insertAllocTensorNodes ex_two1 ex_two_storage ex_two_plan) = None \<and>
   0 < length ex_two_plan \<and>
   ex_two_plan ! 0 = (ex_a, \<lparr>offset = 0, size_reg = 24\<rparr>) \<and>
   (\<exists>pre mid p0 extra post.
      p0 \<in> set (nodes ex_two1) \<and> nid p0 = v_node ex_a \<and>
      nodes (fst (insertAllocTensorNodes ex_two1 ex_two_storage ex_two_plan)) =
        pre @ binding_directive 4 (fresh_output 3) 0 \<lparr>offset = 0, size_reg = 24\<rparr> ex_float23 6
          # mid @ p0\<lparr>inputs := inputs p0 @ extra\<rparr> # post \<and>
      fresh_output 4 \<in> set extra) \<and>
   length (nodes (fst (insertAllocTensorNodes ex_two1 ex_two_storage ex_two_plan))) = 4"
proof -
  let ?res = "insertAllocTensorNodes ex_two1 ex_two_storage ex_two_plan"
  have h1: "distinct (map nid (nodes ex_two1))" by code_simp
  have h2: "\<forall>n \<in> set (nodes ex_two1). nid n < next_unique ex_two1" by code_simp
  have h3: "\<forall>a \<in> set ex_two_plan. v_node (fst a) < next_unique ex_two1" by code_simp
  have e: "snd ?res = None" by code_simp
  then have h4: "?res = (fst ?res, None)" by (metis prod.collapse)
  have h5: "0 < length ex_two_plan" by (simp add: ex_two_plan_def)
  have h6: "ex_two_plan ! 0 = (ex_a, \<lparr>offset = 0, size_reg = 24\<rparr>)"
    by (simp add: ex_two_plan_def)
  have c: "output_of ex_two_storage = Inr (fresh_output 3)"
    "i_get ex_two_storage attr_device = Inr 0"
    "v_type ex_a = TensorT ex_float23" "scalarType ex_float23 = Some 6"
    "next_unique ex_two1 = 4" "length (nodes ex_two1) = 2" "length ex_two_plan = 2"
    by code_simp+
  from binding_inserted_before_producer[OF h1 h2 h3 h4 h5 h6]
  obtain storage_out d ttp st pre mid p0 extra post where
    t: "output_of ex_two_storage = Inr storage_out" "i_get ex_two_storage attr_device = Inr d"
      "v_type ex_a = TensorT ttp" "scalarType ttp = Some st"
      "p0 \<in> set (nodes ex_two1)" "nid p0 = v_node ex_a"
      "nodes (fst ?res) =
        pre @ binding_directive (next_unique ex_two1 + 0) storage_out d
                \<lparr>offset = 0, size_reg = 24\<rparr> ttp st
          # mid @ p0\<lparr>inputs := inputs p0 @ extra\<rparr> # post"
      "fresh_output (next_unique ex_two1 + 0) \<in> set extra"
      "length (nodes (fst ?res)) = length (nodes ex_two1) + length ex_two_plan"
    by blast
  from t(1,2,3,4) c have v: "storage_out = fresh_output 3" "d = 0" "ttp = ex_float23" "st = 6"
    by simp_all
  from t(7,8) v c(5)
  have n: "nodes (fst ?res) =
        pre @ binding_directive 4 (fresh_output 3) 0 \<lparr>offset = 0, size_reg = 24\<rparr> ex_float23 6
          # mid @ p0\<lparr>inputs := inputs p0 @ extra\<rparr> # post"
    and m: "fresh_output 4 \<in> set extra"
    by simp_all
  from t(5,6) n m
  have "\<exists>pre mid p0 extra post.
      p0 \<in> set (nodes ex_two1) \<and> nid p0 = v_node ex_a \<and>
      nodes (fst ?res) =
        pre @ binding_directive 4 (fresh_output 3) 0 \<lparr>offset = 0, size_reg = 24\<rparr> ex_float23 6
          # mid @ p0\<lparr>inputs := inputs p0 @ extra\<rparr> # post \<and>
      fresh_output 4 \<in> set extra"
    by blast
  moreover from t(9) c(6,7) have "length (nodes (fst ?res)) = 4" by simp
  moreover have "map nid (nodes ex_two1) = [3, 0]" "map (v_node \<circ> fst) ex_two_plan = [0, 0]"
    by code_simp+
  ultimately show ?thesis using c(5) e h5 h6 by blast
qed

end
